theory Spec2Isabelle
  imports Complex_Main "HOL-Library.Sublist" "HOL-Library.Log_Nat"
begin

section \<open>Time and durations\<close>

text \<open>
  Go's \<open>time.Duration\<close> is a count of nanoseconds and a \<open>time.Time\<close> is read here as the
  number of nanoseconds since a fixed origin. Both are integers.
\<close>

type_synonym Duration = int
type_synonym Time = int

definition Second :: Duration where
  "Second = 1000000000"

definition Minute :: Duration where
  "Minute = 60 * Second"

section \<open>IEEE 754 double precision\<close>

text \<open>
  \<open>Next\<close> computes \<open>time.Duration(float64(b.next) * b.factor)\<close>: an \<open>int64\<close> is converted
  to \<open>float64\<close>, multiplied in \<open>float64\<close>, and converted back. Each of the three steps can
  round or overflow, so they are modelled as the hardware performs them.

  A finite \<open>float64\<close> is \<open>Finite m e\<close>, standing for \<open>m * 2^e\<close>; every finite double has
  such a form with \<open>\<bar>m\<bar> < 2^53\<close> and \<open>-1074 \<le> e \<le> 971\<close>. The sign of zero is not kept: it
  has no effect on a conversion to an integer.
\<close>

datatype float64 = Finite int int | PosInf | NegInf | NaN

text \<open>
  \<open>rne_shift n s\<close>: \<open>n / 2^s\<close> rounded to the nearest integer, ties to even (the IEEE
  default rounding mode, the only one Go uses).
\<close>

definition rne_shift :: "int \<Rightarrow> nat \<Rightarrow> int" where
  "rne_shift n s =
     sgn n * (if 2 ^ s < 2 * (\<bar>n\<bar> mod 2 ^ s)
                 \<or> (2 * (\<bar>n\<bar> mod 2 ^ s) = 2 ^ s \<and> odd (\<bar>n\<bar> div 2 ^ s))
              then \<bar>n\<bar> div 2 ^ s + 1
              else \<bar>n\<bar> div 2 ^ s)"

text \<open>A rounded result of magnitude \<open>2^1024\<close> or more is an infinity.\<close>

definition finite_or_inf :: "int \<Rightarrow> int \<Rightarrow> float64" where
  "finite_or_inf m e =
     (if 1024 < bitlen \<bar>m\<bar> + e then (if m < 0 then NegInf else PosInf) else Finite m e)"

text \<open>
  The number of low bits of \<open>m\<close> that do not fit: the significand holds 53 bits, and the
  unit in the last place is never below \<open>2^-1074\<close> (the subnormal range).
\<close>

definition dropped_bits :: "int \<Rightarrow> int \<Rightarrow> int" where
  "dropped_bits m e = max (bitlen \<bar>m\<bar> - 53) (- 1074 - e)"

text \<open>\<open>round_f64 m e\<close>: the \<open>float64\<close> nearest to the exact value \<open>m * 2^e\<close>.\<close>

definition round_f64 :: "int \<Rightarrow> int \<Rightarrow> float64" where
  "round_f64 m e =
     (if 0 < dropped_bits m e
      then finite_or_inf (rne_shift m (nat (dropped_bits m e))) (e + dropped_bits m e)
      else finite_or_inf m e)"

text \<open>\<open>float64\<close> multiplication: the exact product, rounded once.\<close>

fun fmul :: "float64 \<Rightarrow> float64 \<Rightarrow> float64" where
  "fmul (Finite a ea) (Finite b eb) = round_f64 (a * b) (ea + eb)"
| "fmul NaN y = NaN"
| "fmul x NaN = NaN"
| "fmul (Finite a ea) PosInf = (if a = 0 then NaN else if a < 0 then NegInf else PosInf)"
| "fmul (Finite a ea) NegInf = (if a = 0 then NaN else if a < 0 then PosInf else NegInf)"
| "fmul PosInf (Finite b eb) = (if b = 0 then NaN else if b < 0 then NegInf else PosInf)"
| "fmul NegInf (Finite b eb) = (if b = 0 then NaN else if b < 0 then PosInf else NegInf)"
| "fmul PosInf PosInf = PosInf"
| "fmul PosInf NegInf = NegInf"
| "fmul NegInf PosInf = NegInf"
| "fmul NegInf NegInf = PosInf"

definition MinInt64 :: int where
  "MinInt64 = - (2 ^ 63)"

definition MaxInt64 :: int where
  "MaxInt64 = 2 ^ 63 - 1"

text \<open>\<open>truncated m e\<close>: the value \<open>m * 2^e\<close> with its fraction cut off (towards zero).\<close>

definition truncated :: "int \<Rightarrow> int \<Rightarrow> int" where
  "truncated m e = (if 0 \<le> e then m * 2 ^ nat e else sgn m * (\<bar>m\<bar> div 2 ^ nat (- e)))"

text \<open>
  The conversion \<open>int64(x)\<close> of a \<open>float64\<close>. Go truncates towards zero; for a value that
  \<open>int64\<close> cannot hold (too large, an infinity, a NaN) the language leaves the result to
  the implementation. The model follows amd64, whose conversion instruction then yields
  the smallest \<open>int64\<close>.
\<close>

fun float64_to_int64 :: "float64 \<Rightarrow> int" where
  "float64_to_int64 (Finite m e) =
     (if MinInt64 \<le> truncated m e \<and> truncated m e \<le> MaxInt64 then truncated m e
      else MinInt64)"
| "float64_to_int64 other = MinInt64"

text \<open>The conversion \<open>float64(d)\<close> of an \<open>int64\<close>: the nearest double.\<close>

definition int64_to_float64 :: "int \<Rightarrow> float64" where
  "int64_to_float64 d = round_f64 d 0"

text \<open>The value of a finite \<open>float64\<close> as a rational; 0 for infinities and NaN.\<close>

definition float64_value :: "float64 \<Rightarrow> rat" where
  "float64_value f =
     (case f of
        Finite m e \<Rightarrow>
          (if 0 \<le> e then of_int (m * 2 ^ nat e) else of_int m / of_int (2 ^ nat (- e)))
      | PosInf \<Rightarrow> 0
      | NegInf \<Rightarrow> 0
      | NaN \<Rightarrow> 0)"

text \<open>The pairs \<open>Finite m e\<close> that are values of the type \<open>float64\<close>.\<close>

definition is_float64 :: "float64 \<Rightarrow> bool" where
  "is_float64 f =
     (case f of
        Finite m e \<Rightarrow> \<bar>m\<bar> < 2 ^ 53 \<and> - 1074 \<le> e \<and> e \<le> 971
      | PosInf \<Rightarrow> True
      | NegInf \<Rightarrow> True
      | NaN \<Rightarrow> True)"

section \<open>RequeueBackoff\<close>

text \<open>
  The struct \<open>RequeueBackoff\<close> of \<open>controller.go\<close>. The fields \<open>last\<close> and \<open>next\<close> carry
  the prefix \<open>b_\<close> since both names are taken in Isabelle. The only call of \<open>NewBackoff\<close>
  in the repository is \<open>NewBackoff(5*time.Second, 1.5)\<close> in \<open>WorkerFunc\<close>; the factor 1.5
  is \<open>Finite 3 (- 1)\<close>.
\<close>

record RequeueBackoff =
  b_last :: Time
  b_next :: Duration
  b_factor :: float64

text \<open>\<open>scaled d f\<close> is \<open>time.Duration(float64(d) * f)\<close>.\<close>

definition scaled :: "Duration \<Rightarrow> float64 \<Rightarrow> Duration" where
  "scaled d f = float64_to_int64 (fmul (int64_to_float64 d) f)"

text \<open>
  \<open>NewBackoff\<close> fills the struct and calls \<open>reset\<close>, which only starts the ticker
  goroutine; the struct is not changed before the first tick.
\<close>

definition NewBackoff :: "Time \<Rightarrow> Duration \<Rightarrow> float64 \<Rightarrow> RequeueBackoff" where
  "NewBackoff now nxt factor = \<lparr>b_last = now, b_next = nxt, b_factor = factor\<rparr>"

text \<open>
  One firing of the ticker inside \<open>reset\<close>, at time \<open>now\<close>:
  \<open>if time.Now().After(b.last.Add(1 * time.Minute)) { b.next = 5 * time.Second }\<close>.
\<close>

definition reset_tick :: "Time \<Rightarrow> RequeueBackoff \<Rightarrow> RequeueBackoff" where
  "reset_tick now b =
     (if b_last b + 1 * Minute < now then b\<lparr>b_next := 5 * Second\<rparr> else b)"

text \<open>\<open>Next\<close>, called at time \<open>now\<close>; returns the delay and the updated struct.\<close>

definition Next :: "Time \<Rightarrow> RequeueBackoff \<Rightarrow> Duration \<times> RequeueBackoff" where
  "Next now b =
     (let b1 = b\<lparr>b_last := now\<rparr>;
          b2 = b1\<lparr>b_next := scaled (b_next b1) (b_factor b1)\<rparr>;
          b3 = (if b_next b2 > 120 * Second then b2\<lparr>b_next := 30 * Second\<rparr> else b2)
      in (b_next b3, b3))"

text \<open>
  \<open>Next\<close> called once at each of the given times, with no ticker firing in between;
  the list of returned delays.
\<close>

fun Next_seq :: "Time list \<Rightarrow> RequeueBackoff \<Rightarrow> Duration list" where
  "Next_seq [] b = []"
| "Next_seq (t # ts) b = fst (Next t b) # Next_seq ts (snd (Next t b))"

text \<open>
  The states of a backoff that was initialised with the given floor and factor: the one
  \<open>NewBackoff\<close> builds, and every state that calls of \<open>Next\<close> and firings of the ticker,
  at any times and in any order, lead to from there.
\<close>

inductive reachable :: "Duration \<Rightarrow> float64 \<Rightarrow> RequeueBackoff \<Rightarrow> bool"
  for floor_delay :: Duration and factor :: float64 where
  initial: "reachable floor_delay factor (NewBackoff t floor_delay factor)"
| after_Next: "reachable floor_delay factor b \<Longrightarrow> reachable floor_delay factor (snd (Next t b))"
| after_tick: "reachable floor_delay factor b \<Longrightarrow> reachable floor_delay factor (reset_tick t b)"

section \<open>Errors and strings\<close>

text \<open>
  A Go \<open>error\<close> is modelled by its message (\<open>err.Error()\<close>) together with the reason
  that \<open>errors.IsNotFound\<close> and \<open>errors.IsConflict\<close> of the Kubernetes API machinery
  inspect. An \<open>error\<close> result that may be \<open>nil\<close> is an \<open>error option\<close>.
\<close>

datatype StatusReason = ReasonUnknown | ReasonNotFound | ReasonConflict

datatype error = GoError (reason: StatusReason) (Error: string)

definition Errorf :: "string \<Rightarrow> error" where
  "Errorf msg = GoError ReasonUnknown msg"

definition IsNotFound :: "error option \<Rightarrow> bool" where
  "IsNotFound e = (case e of None \<Rightarrow> False | Some x \<Rightarrow> reason x = ReasonNotFound)"

definition IsConflict :: "error option \<Rightarrow> bool" where
  "IsConflict e = (case e of None \<Rightarrow> False | Some x \<Rightarrow> reason x = ReasonConflict)"

text \<open>\<open>strings.Contains(s, substr)\<close>: \<open>substr\<close> occurs in \<open>s\<close> as a contiguous block.\<close>

primrec Contains :: "string \<Rightarrow> string \<Rightarrow> bool" where
  "Contains [] substr = (substr = [])"
| "Contains (c # cs) substr = (prefix substr (c # cs) \<or> Contains cs substr)"

definition TRY_AGAIN :: string where
  "TRY_AGAIN = ''try again''"

section \<open>The worker loop\<close>

text \<open>
  One pass through the body of the loop in \<open>WorkerFunc\<close>. \<open>queue.Get()\<close> has delivered
  \<open>(k, quit)\<close>; the calls made on the queue are returned in the order they happen
  (\<open>queue.Done\<close> is deferred, so it comes last). The sync task works on a state of its
  own, \<open>'s\<close>, which is threaded through. \<open>now\<close> is the time at which \<open>back.Next()\<close>
  would read the clock.
\<close>

datatype QueueOp = AddAfter string Duration | Done string

type_synonym 's SyncTask = "string \<Rightarrow> 's \<Rightarrow> error option \<times> 's"

definition worker_iter ::
  "Time \<Rightarrow> 's SyncTask \<Rightarrow> string \<times> bool \<Rightarrow> RequeueBackoff \<times> 's
     \<Rightarrow> QueueOp list \<times> RequeueBackoff \<times> 's" where
  "worker_iter now syncd got st =
     (case got of (k, quit) \<Rightarrow>
      case st of (back, s) \<Rightarrow>
        if quit then ([], back, s)
        else (case syncd k s of
                (None, s') \<Rightarrow> ([Done k], back, s')
              | (Some err, s') \<Rightarrow>
                  if Contains (Error err) ''Throttling''
                  then ([AddAfter k (fst (Next now back)), Done k], snd (Next now back), s')
                  else ([AddAfter k (5 * Second), Done k], back, s')))"

section \<open>Kubernetes objects\<close>

text \<open>
  The fields of \<open>v1.Service\<close> and \<open>v1.Node\<close> that the service controller reads. Label
  and annotation maps are partial maps; reading a key that is absent from a Go map
  yields the empty string, which \<open>lookup\<close> writes out.
\<close>

record LoadBalancerIngress =
  IP :: string
  Hostname :: string

type_synonym LoadBalancerStatus = "LoadBalancerIngress list"

record Service =
  Namespace :: string
  Name :: string
  UID :: string
  Labels :: "string \<rightharpoonup> string"
  Annotations :: "string \<rightharpoonup> string"
  SpecType :: string
  ExternalTrafficPolicy :: string
  StatusLoadBalancer :: LoadBalancerStatus

record NodeCondition =
  CondType :: string
  CondStatus :: string

record Node =
  NodeName :: string
  NodeLabels :: "string \<rightharpoonup> string"
  Unschedulable :: bool
  Conditions :: "NodeCondition list"

definition lookup :: "(string \<rightharpoonup> string) \<Rightarrow> string \<Rightarrow> string" where
  "lookup m k = (case m k of None \<Rightarrow> [] | Some v \<Rightarrow> v)"

definition LabelNodeRoleMaster :: string where
  "LabelNodeRoleMaster = ''node-role.kubernetes.io/master''"

definition ServiceExternalTrafficPolicyTypeCluster :: string where
  "ServiceExternalTrafficPolicyTypeCluster = ''Cluster''"

definition ServiceExternalTrafficPolicyTypeLocal :: string where
  "ServiceExternalTrafficPolicyTypeLocal = ''Local''"

definition NodeReady :: string where
  "NodeReady = ''Ready''"

definition ConditionTrue :: string where
  "ConditionTrue = ''True''"

text \<open>
  The constants of package \<open>utils\<close> that \<open>controller.go\<close> reads are declared outside the
  files at hand; they are parameters of the model.
\<close>

record Utils =
  ServiceAnnotationLoadBalancerRemoveUnscheduledBackend :: string
  ECINodeLabel :: string
  LabelServiceHash :: string

text \<open>\<open>key\<close>: \<open>fmt.Sprintf("%s/%s", svc.Namespace, svc.Name)\<close>.\<close>

definition key :: "Service \<Rightarrow> string" where
  "key svc = Namespace svc @ ''/'' @ Name svc"

section \<open>Node eligibility\<close>

text \<open>
  The loop over \<open>node.Status.Conditions\<close> at the end of the predicate: it returns false
  at the first \<open>Ready\<close> condition whose status is not \<open>True\<close>, and true when the list is
  exhausted.
\<close>

primrec conditions_ok :: "NodeCondition list \<Rightarrow> bool" where
  "conditions_ok [] = True"
| "conditions_ok (cond # conds) =
     (if CondType cond = NodeReady \<and> CondStatus cond \<noteq> ConditionTrue then False
      else conditions_ok conds)"

text \<open>
  The closure returned by \<open>NodeConditionPredicate(svc)\<close>, applied to a node. The error
  result of \<open>NodeConditionPredicate\<close> is always \<open>nil\<close>.
\<close>

definition NodeConditionPredicate :: "Utils \<Rightarrow> Service \<Rightarrow> Node \<Rightarrow> bool" where
  "NodeConditionPredicate u svc node =
     (if Unschedulable node
         \<and> lookup (Annotations svc) (ServiceAnnotationLoadBalancerRemoveUnscheduledBackend u) = ''on''
      then False
      else if NodeLabels node LabelNodeRoleMaster \<noteq> None
         \<and> ExternalTrafficPolicy svc = ServiceExternalTrafficPolicyTypeCluster
      then False
      else if NodeLabels node ''type'' = Some (ECINodeLabel u)
      then True
      else if length (Conditions node) = 0
      then False
      else conditions_ok (Conditions node))"

section \<open>Collaborators and controller state\<close>

text \<open>
  The cloud backend, the informer listers, the API client and the helpers of other
  packages are outside the files at hand. They are parameters: each operation is a
  function on a state \<open>'w\<close> of the outside world, which it may change. Reads through a
  lister leave the world as it is.

  \<open>cloud_GetLoadBalancer\<close> returns the \<open>exists\<close> flag and the error (the status it also
  returns is discarded by the caller); \<open>client_Services_Get\<close> returns either an error or
  the object.
\<close>

record 'w Deps =
  utils :: Utils
  NeedLoadBalancer :: "Service \<Rightarrow> bool"
  GetServiceHash :: "Service \<Rightarrow> error + string"
  cloud_GetLoadBalancer :: "Service \<Rightarrow> 'w \<Rightarrow> (bool \<times> error option) \<times> 'w"
  cloud_EnsureLoadBalancer ::
    "Service \<Rightarrow> Node list \<Rightarrow> 'w \<Rightarrow> (LoadBalancerStatus option \<times> error option) \<times> 'w"
  cloud_EnsureLoadBalancerDeleted :: "Service \<Rightarrow> 'w \<Rightarrow> error option \<times> 'w"
  lister_Services_Get :: "string \<Rightarrow> string \<Rightarrow> 'w \<Rightarrow> Service option \<times> error option"
  lister_Nodes_List :: "'w \<Rightarrow> error + Node list"
  client_Services_Get :: "string \<Rightarrow> string \<Rightarrow> 'w \<Rightarrow> (error + Service) \<times> 'w"
  client_UpdateStatus :: "Service \<Rightarrow> 'w \<Rightarrow> error option \<times> 'w"
  PatchService :: "Service \<Rightarrow> Service \<Rightarrow> 'w \<Rightarrow> error option \<times> 'w"

text \<open>
  Every call that leaves the process is logged, in order: calls to the cloud backend,
  calls through the API client, and events handed to the recorder (event type and
  reason; the message text is left out).
\<close>

datatype Call =
    CloudGetLoadBalancer Service
  | CloudEnsureLoadBalancer Service "Node list"
  | CloudEnsureLoadBalancerDeleted Service
  | ClientGetService string string
  | ClientUpdateStatus Service
  | ClientPatchService Service Service
  | RecorderEvent Service string string

record 'w Controller =
  world :: 'w
  local_ctx :: "string \<rightharpoonup> Service"
  calls :: "Call list"

definition logged :: "Call \<Rightarrow> 'w \<Rightarrow> 'w Controller \<Rightarrow> 'w Controller" where
  "logged call w c = c\<lparr>world := w, calls := calls c @ [call]\<rparr>"

definition Eventf :: "Service \<Rightarrow> string \<Rightarrow> string \<Rightarrow> 'w Controller \<Rightarrow> 'w Controller" where
  "Eventf svc eventtype rsn c = c\<lparr>calls := calls c @ [RecorderEvent svc eventtype rsn]\<rparr>"

text \<open>
  Modelled from the spec: the type \<open>Context\<close> behind \<open>con.local\<close> and its methods
  \<open>Get\<close>, \<open>Set\<close> and \<open>Remove\<close> are declared outside the files at hand. The spec describes
  the ServiceCache as a process-local map keyed by \<open>namespace/name\<close>; \<open>Get\<close> of an absent
  key is \<open>nil\<close>.
\<close>

definition Context_Get :: "'w Controller \<Rightarrow> string \<Rightarrow> Service option" where
  "Context_Get c k = local_ctx c k"

definition Context_Set :: "string \<Rightarrow> Service \<Rightarrow> 'w Controller \<Rightarrow> 'w Controller" where
  "Context_Set k svc c = c\<lparr>local_ctx := (local_ctx c)(k \<mapsto> svc)\<rparr>"

definition Context_Remove :: "string \<Rightarrow> 'w Controller \<Rightarrow> 'w Controller" where
  "Context_Remove k c = c\<lparr>local_ctx := (local_ctx c)(k := None)\<rparr>"

section \<open>The retry helper\<close>

text \<open>
  \<open>wait.Backoff\<close> and \<open>wait.ExponentialBackoff\<close> of the Kubernetes API machinery. The
  library runs the condition up to \<open>Steps\<close> times, sleeping between attempts; it returns
  the condition's error as soon as there is one, \<open>nil\<close> as soon as the condition reports
  done, and \<open>ErrWaitTimeout\<close> when the steps are used up. \<open>Duration\<close>, \<open>Factor\<close> and
  \<open>Jitter\<close> only set the length of the sleeps.
\<close>

record Backoff =
  Duration :: Duration
  Steps :: int
  Factor :: rat
  Jitter :: rat

definition ErrWaitTimeout :: error where
  "ErrWaitTimeout = Errorf ''timed out waiting for the condition''"

fun attempts :: "nat \<Rightarrow> ('s \<Rightarrow> (bool \<times> error option) \<times> 's) \<Rightarrow> 's \<Rightarrow> error option \<times> 's" where
  "attempts 0 condition s = (Some ErrWaitTimeout, s)"
| "attempts (Suc n) condition s =
     (case condition s of
        ((ok, err), s') \<Rightarrow> if err \<noteq> None \<or> ok then (err, s') else attempts n condition s')"

definition ExponentialBackoff ::
  "Backoff \<Rightarrow> ('s \<Rightarrow> (bool \<times> error option) \<times> 's) \<Rightarrow> 's \<Rightarrow> error option \<times> 's" where
  "ExponentialBackoff backoff condition s = attempts (nat (Steps backoff)) condition s"

text \<open>The closure that \<open>retry\<close> hands to \<open>wait.ExponentialBackoff\<close>.\<close>

definition retry_condition ::
  "(Service \<Rightarrow> 's \<Rightarrow> error option \<times> 's) \<Rightarrow> Service \<Rightarrow> 's \<Rightarrow> (bool \<times> error option) \<times> 's" where
  "retry_condition f svc s =
     (case f svc s of
        (Some err, s') \<Rightarrow>
          if Contains (Error err) TRY_AGAIN then ((False, None), s') else ((True, None), s')
      | (None, s') \<Rightarrow> ((True, None), s'))"

definition retry ::
  "Backoff option \<Rightarrow> (Service \<Rightarrow> 's \<Rightarrow> error option \<times> 's) \<Rightarrow> Service \<Rightarrow> 's
     \<Rightarrow> error option \<times> 's" where
  "retry backoff f svc s =
     ExponentialBackoff
       (case backoff of
          None \<Rightarrow> \<lparr>Duration = 1 * Second, Steps = 8, Factor = 2, Jitter = 4\<rparr>
        | Some b \<Rightarrow> b)
       (retry_condition f svc) s"

section \<open>The reconciler\<close>

definition EventTypeNormal :: string where
  "EventTypeNormal = ''Normal''"

definition EventTypeWarning :: string where
  "EventTypeWarning = ''Warning''"

text \<open>\<open>Controller.delete\<close>.\<close>

definition delete :: "'w Deps \<Rightarrow> Service \<Rightarrow> 'w Controller \<Rightarrow> error option \<times> 'w Controller" where
  "delete d svc c =
     (case cloud_EnsureLoadBalancerDeleted d svc (world c) of
        (Some err, w) \<Rightarrow>
          (Some (Errorf TRY_AGAIN),
           Eventf svc EventTypeWarning ''DeleteLoadBalancerFailed''
             (logged (CloudEnsureLoadBalancerDeleted svc) w c))
      | (None, w) \<Rightarrow>
          (None,
           Context_Remove (key svc)
             (Eventf svc EventTypeNormal ''DeletedLoadBalancer''
               (logged (CloudEnsureLoadBalancerDeleted svc) w c))))"

text \<open>\<open>AvailableNodes\<close>: the nodes of the lister that pass the predicate, in order.\<close>

definition AvailableNodes :: "'w Deps \<Rightarrow> Service \<Rightarrow> 'w \<Rightarrow> error + Node list" where
  "AvailableNodes d svc w =
     (case lister_Nodes_List d w of
        Inl err \<Rightarrow> Inl err
      | Inr nodes \<Rightarrow> Inr (filter (NodeConditionPredicate (utils d) svc) nodes))"

text \<open>\<open>Controller.addServiceHash\<close> and \<open>Controller.removeServiceHash\<close>.\<close>

definition addServiceHash :: "'w Deps \<Rightarrow> Service \<Rightarrow> 'w Controller \<Rightarrow> error option \<times> 'w Controller" where
  "addServiceHash d svc c =
     (case GetServiceHash d svc of
        Inl err \<Rightarrow> (Some (Errorf (''compute service hash: '' @ Error err)), c)
      | Inr serviceHash \<Rightarrow>
          (case PatchService d svc
                  (svc\<lparr>Labels := (Labels svc)(LabelServiceHash (utils d) \<mapsto> serviceHash)\<rparr>)
                  (world c) of
             (Some err, w) \<Rightarrow>
               (Some (Errorf (''update service hash: '' @ Error err)),
                logged (ClientPatchService svc
                  (svc\<lparr>Labels := (Labels svc)(LabelServiceHash (utils d) \<mapsto> serviceHash)\<rparr>)) w c)
           | (None, w) \<Rightarrow>
               (None,
                logged (ClientPatchService svc
                  (svc\<lparr>Labels := (Labels svc)(LabelServiceHash (utils d) \<mapsto> serviceHash)\<rparr>)) w c)))"

definition removeServiceHash :: "'w Deps \<Rightarrow> Service \<Rightarrow> 'w Controller \<Rightarrow> error option \<times> 'w Controller" where
  "removeServiceHash d svc c =
     (if Labels svc (LabelServiceHash (utils d)) \<noteq> None
      then (case PatchService d svc
                   (svc\<lparr>Labels := (Labels svc)(LabelServiceHash (utils d) := None)\<rparr>) (world c) of
              (Some err, w) \<Rightarrow>
                (Some (Errorf (''remove service hash, error: '' @ Error err)),
                 logged (ClientPatchService svc
                   (svc\<lparr>Labels := (Labels svc)(LabelServiceHash (utils d) := None)\<rparr>)) w c)
            | (None, w) \<Rightarrow>
                (None,
                 logged (ClientPatchService svc
                   (svc\<lparr>Labels := (Labels svc)(LabelServiceHash (utils d) := None)\<rparr>)) w c))
      else (None, c))"

text \<open>
  \<open>v1helper.LoadBalancerStatusEqual\<close>: the two ingress lists have the same length and
  agree entry by entry on \<open>IP\<close> and \<open>Hostname\<close>.
\<close>

definition LoadBalancerStatusEqual :: "LoadBalancerStatus \<Rightarrow> LoadBalancerStatus \<Rightarrow> bool" where
  "LoadBalancerStatusEqual l r =
     (length l = length r \<and> list_all2 (\<lambda>a b. IP a = IP b \<and> Hostname a = Hostname b) l r)"

text \<open>The closure that \<open>updateStatus\<close> hands to \<open>retry\<close>: fetch the latest object, write its status.\<close>

definition persist_status ::
  "'w Deps \<Rightarrow> LoadBalancerStatus \<Rightarrow> Service \<Rightarrow> 'w Controller \<Rightarrow> error option \<times> 'w Controller" where
  "persist_status d newm svc c =
     (case client_Services_Get d (Namespace svc) (Name svc) (world c) of
        (Inl err, w) \<Rightarrow>
          (Some (Errorf (''error to get svc '' @ key svc)),
           logged (ClientGetService (Namespace svc) (Name svc)) w c)
      | (Inr updated, w) \<Rightarrow>
          (case client_UpdateStatus d (updated\<lparr>StatusLoadBalancer := newm\<rparr>) w of
             (None, w') \<Rightarrow>
               (None,
                logged (ClientUpdateStatus (updated\<lparr>StatusLoadBalancer := newm\<rparr>)) w'
                  (logged (ClientGetService (Namespace svc) (Name svc)) w c))
           | (Some err, w') \<Rightarrow>
               (if IsNotFound (Some err) then None
                else if IsConflict (Some err)
                then Some (Errorf (''not persisting update to service '' @ key svc
                       @ '' that has been changed since we received it: '' @ Error err))
                else Some (Errorf (''retry with '' @ Error err @ '', '' @ TRY_AGAIN)),
                logged (ClientUpdateStatus (updated\<lparr>StatusLoadBalancer := newm\<rparr>)) w'
                  (logged (ClientGetService (Namespace svc) (Name svc)) w c))))"

text \<open>\<open>Controller.updateStatus\<close>; \<open>newm\<close> may be \<open>nil\<close>.\<close>

definition updateStatus ::
  "'w Deps \<Rightarrow> Service \<Rightarrow> LoadBalancerStatus \<Rightarrow> LoadBalancerStatus option \<Rightarrow> 'w Controller
     \<Rightarrow> error option \<times> 'w Controller" where
  "updateStatus d svc pre newm c =
     (case newm of
        None \<Rightarrow> (Some (Errorf ''status not updated for nil status reason''), c)
      | Some n \<Rightarrow>
          if \<not> LoadBalancerStatusEqual pre n
          then retry (Some \<lparr>Duration = 1 * Second, Steps = 3, Factor = 2, Jitter = 4\<rparr>)
                 (persist_status d n) svc c
          else (None, c))"

text \<open>
  The tail of \<open>Controller.update\<close>, from the call of \<open>updateStatus\<close> on: on success the
  object is stored in the cache.
\<close>

definition finish_update ::
  "'w Deps \<Rightarrow> Service \<Rightarrow> LoadBalancerStatus \<Rightarrow> LoadBalancerStatus option \<Rightarrow> 'w Controller
     \<Rightarrow> error option \<times> 'w Controller" where
  "finish_update d svc pre newm c =
     (case updateStatus d svc pre newm c of
        (Some err, c') \<Rightarrow> (Some (Errorf (''update service status: '' @ Error err)), c')
      | (None, c') \<Rightarrow> (None, Context_Set (key svc) svc c'))"

text \<open>The branch of \<open>Controller.update\<close> for a service that needs no load balancer.\<close>

definition update_not_needed ::
  "'w Deps \<Rightarrow> Service \<Rightarrow> LoadBalancerStatus \<Rightarrow> 'w Controller \<Rightarrow> error option \<times> 'w Controller" where
  "update_not_needed d svc pre c =
     (case cloud_GetLoadBalancer d svc (world c) of
        ((exits, Some err), w) \<Rightarrow> (Some err, logged (CloudGetLoadBalancer svc) w c)
      | ((exits, None), w) \<Rightarrow>
          (case (if exits then retry None (delete d) svc (logged (CloudGetLoadBalancer svc) w c)
                 else (None, Context_Remove (key svc) (logged (CloudGetLoadBalancer svc) w c))) of
             (Some err, c1) \<Rightarrow> (Some err, c1)
           | (None, c1) \<Rightarrow>
               (case removeServiceHash d svc c1 of
                  (Some err, c2) \<Rightarrow> (Some err, c2)
                | (None, c2) \<Rightarrow> finish_update d svc pre (Some []) c2)))"

text \<open>The branch of \<open>Controller.update\<close> for a service that needs a load balancer.\<close>

definition update_needed ::
  "'w Deps \<Rightarrow> Service \<Rightarrow> LoadBalancerStatus \<Rightarrow> 'w Controller \<Rightarrow> error option \<times> 'w Controller" where
  "update_needed d svc pre c =
     (case AvailableNodes d svc (world c) of
        Inl err \<Rightarrow> (Some (Errorf (''error get available nodes '' @ Error err)), c)
      | Inr nodes \<Rightarrow>
          (case cloud_EnsureLoadBalancer d svc nodes (world c) of
             ((newm, None), w) \<Rightarrow>
               (case addServiceHash d svc
                       (Eventf svc EventTypeNormal ''EnsuredLoadBalancer''
                         (logged (CloudEnsureLoadBalancer svc nodes) w
                           (if length nodes = 0
                            then Eventf svc EventTypeWarning ''UnAvailableLoadBalancer'' c
                            else c))) of
                  (Some err, c1) \<Rightarrow> (Some err, c1)
                | (None, c1) \<Rightarrow> finish_update d svc pre newm c1)
           | ((newm, Some err), w) \<Rightarrow>
               (Some (Errorf (''ensure loadbalancer error: '' @ Error err)),
                Eventf svc EventTypeWarning ''SyncLoadBalancerFailed''
                  (logged (CloudEnsureLoadBalancer svc nodes) w
                    (if length nodes = 0
                     then Eventf svc EventTypeWarning ''UnAvailableLoadBalancer'' c
                     else c)))))"

text \<open>\<open>Controller.update\<close>; \<open>cached\<close> may be \<open>nil\<close>.\<close>

definition update ::
  "'w Deps \<Rightarrow> Service option \<Rightarrow> Service \<Rightarrow> 'w Controller \<Rightarrow> error option \<times> 'w Controller" where
  "update d cached svc c =
     (if (case cached of None \<Rightarrow> False | Some cs \<Rightarrow> UID cs \<noteq> UID svc)
      then retry None (delete d) svc c
      else if \<not> NeedLoadBalancer d svc
      then update_not_needed d svc (StatusLoadBalancer svc) c
      else update_needed d svc (StatusLoadBalancer svc) c)"

text \<open>
  \<open>cache.SplitMetaNamespaceKey\<close> of client-go: the key is split at every \<open>/\<close>; one part
  is a name without namespace, two parts are namespace and name, anything else is an
  error, whose text shows the key between double quotes (\<open>%q\<close>; the escapes that \<open>%q\<close>
  adds for control characters and quotes inside the key are not modelled).
\<close>

primrec Split_slash :: "string \<Rightarrow> string list" where
  "Split_slash [] = [[]]"
| "Split_slash (c # cs) =
     (if c = CHR ''/'' then [] # Split_slash cs
      else (case Split_slash cs of
              [] \<Rightarrow> [[c]]
            | part # parts \<Rightarrow> (c # part) # parts))"

definition SplitMetaNamespaceKey :: "string \<Rightarrow> error + string \<times> string" where
  "SplitMetaNamespaceKey k =
     (case Split_slash k of
        [name] \<Rightarrow> Inr ([], name)
      | [ns, name] \<Rightarrow> Inr (ns, name)
      | _ \<Rightarrow> Inl (Errorf (''unexpected key format: '' @ [CHR 0x22] @ k @ [CHR 0x22])))"

text \<open>\<open>Controller.ServiceSyncTask\<close>.\<close>

definition ServiceSyncTask :: "'w Deps \<Rightarrow> string \<Rightarrow> 'w Controller \<Rightarrow> error option \<times> 'w Controller" where
  "ServiceSyncTask d k c =
     (case SplitMetaNamespaceKey k of
        Inl err \<Rightarrow> (Some (Errorf (''unexpected key format '' @ k @ '' for syncing service'')), c)
      | Inr (ns, name) \<Rightarrow>
          (case lister_Services_Get d ns name (world c) of
             (service, err) \<Rightarrow>
               if IsNotFound err
               then (case Context_Get c k of
                       None \<Rightarrow> (None, c)
                     | Some cached \<Rightarrow> retry None (delete d) cached c)
               else (case err of
                       Some e \<Rightarrow>
                         (Some (Errorf (''failed to load service from local context: '' @ Error e)), c)
                     | None \<Rightarrow>
                         (case service of
                            None \<Rightarrow> (Some (Errorf (''retry unexpected nil service '' @ k @ ''. '')), c)
                          | Some svc \<Rightarrow> update d (Context_Get c k) svc c))))"

section \<open>Observing a run\<close>

text \<open>The calls logged between an earlier controller state and a later one.\<close>

definition calls_since :: "'w Controller \<Rightarrow> 'w Controller \<Rightarrow> Call list" where
  "calls_since c c' = drop (length (calls c)) (calls c')"

fun is_status_write :: "Call \<Rightarrow> bool" where
  "is_status_write (ClientUpdateStatus svc) = True"
| "is_status_write other = False"

fun is_ensure :: "Call \<Rightarrow> bool" where
  "is_ensure (CloudEnsureLoadBalancer svc nodes) = True"
| "is_ensure other = False"

section \<open>Sample objects and an in-memory double of the collaborators\<close>

text \<open>
  Concrete values on which the model is run. The strings of \<open>sample_utils\<close> stand for the
  constants of package \<open>utils\<close>; no property below depends on their spelling.
\<close>

definition sample_utils :: Utils where
  "sample_utils =
     \<lparr>ServiceAnnotationLoadBalancerRemoveUnscheduledBackend =
        ''service.beta.kubernetes.io/alibaba-cloud-loadbalancer-remove-unscheduled-backend'',
      ECINodeLabel = ''virtual-kubelet'',
      LabelServiceHash = ''service.beta.kubernetes.io/hash''\<rparr>"

definition sample_service :: "string \<Rightarrow> string \<Rightarrow> string \<Rightarrow> LoadBalancerStatus \<Rightarrow> Service" where
  "sample_service uid ty policy st =
     \<lparr>Namespace = ''default'', Name = ''web'', UID = uid, Labels = Map.empty,
      Annotations = Map.empty, SpecType = ty, ExternalTrafficPolicy = policy,
      StatusLoadBalancer = st\<rparr>"

definition sample_ingress :: LoadBalancerStatus where
  "sample_ingress = [\<lparr>IP = ''10.0.0.1'', Hostname = []\<rparr>]"

definition ready_master :: Node where
  "ready_master =
     \<lparr>NodeName = ''master-1'', NodeLabels = [LabelNodeRoleMaster \<mapsto> []],
      Unschedulable = False,
      Conditions = [\<lparr>CondType = ''Ready'', CondStatus = ''True''\<rparr>]\<rparr>"

definition ready_worker :: Node where
  "ready_worker =
     \<lparr>NodeName = ''worker-1'', NodeLabels = Map.empty, Unschedulable = False,
      Conditions = [\<lparr>CondType = ''Ready'', CondStatus = ''True''\<rparr>]\<rparr>"

text \<open>
  The double: the cloud is the list of service UIDs that own a load balancer, the API
  server holds one service object, and \<open>status_write_error\<close> is what the next status
  write answers.
\<close>

record World =
  balancers :: "string list"
  stored :: "Service option"
  cluster_nodes :: "Node list"
  status_write_error :: "error option"

definition stored_get :: "string \<Rightarrow> string \<Rightarrow> World \<Rightarrow> error + Service" where
  "stored_get ns name w =
     (case stored w of
        None \<Rightarrow> Inl (GoError ReasonNotFound ''service not found'')
      | Some svc \<Rightarrow>
          if Namespace svc = ns \<and> Name svc = name then Inr svc
          else Inl (GoError ReasonNotFound ''service not found''))"

definition fake_deps :: "World Deps" where
  "fake_deps =
     \<lparr>utils = sample_utils,
      NeedLoadBalancer = (\<lambda>svc. SpecType svc = ''LoadBalancer''),
      GetServiceHash = (\<lambda>svc. Inr ''0123abcd''),
      cloud_GetLoadBalancer = (\<lambda>svc w. ((UID svc \<in> set (balancers w), None), w)),
      cloud_EnsureLoadBalancer =
        (\<lambda>svc nodes w.
           ((Some sample_ingress, None), w\<lparr>balancers := List.insert (UID svc) (balancers w)\<rparr>)),
      cloud_EnsureLoadBalancerDeleted =
        (\<lambda>svc w. (None, w\<lparr>balancers := removeAll (UID svc) (balancers w)\<rparr>)),
      lister_Services_Get =
        (\<lambda>ns name w. case stored_get ns name w of
                         Inl err \<Rightarrow> (None, Some err)
                       | Inr svc \<Rightarrow> (Some svc, None)),
      lister_Nodes_List = (\<lambda>w. Inr (cluster_nodes w)),
      client_Services_Get = (\<lambda>ns name w. (stored_get ns name w, w)),
      client_UpdateStatus =
        (\<lambda>svc w. case status_write_error w of
                     Some err \<Rightarrow> (Some err, w)
                   | None \<Rightarrow> (None, w\<lparr>stored := Some svc\<rparr>)),
      PatchService = (\<lambda>old new w. (None, w\<lparr>stored := Some new\<rparr>))\<rparr>"

definition start :: "World \<Rightarrow> World Controller" where
  "start w = \<lparr>world = w, local_ctx = Map.empty, calls = []\<rparr>"

text \<open>
  Two answers of the API server with reason \<open>Conflict\<close>: a failed UID precondition, and
  the optimistic-lock conflict, whose message ends in the words "try again".
\<close>

definition conflict_error :: error where
  "conflict_error =
     GoError ReasonConflict
       ''Operation cannot be fulfilled on services web: Precondition failed: UID in precondition: uid-A, UID in object meta: uid-B''"

definition optimistic_lock_error :: error where
  "optimistic_lock_error =
     GoError ReasonConflict
       ''Operation cannot be fulfilled on services web: the object has been modified; please apply your changes to the latest version and try again''"

text \<open>A service whose status already shows the address the cloud reports, and its hashed copy.\<close>

definition synced_service :: Service where
  "synced_service = sample_service ''u1'' ''LoadBalancer'' ''Local'' sample_ingress"

definition hashed_service :: Service where
  "hashed_service =
     synced_service\<lparr>Labels := [''service.beta.kubernetes.io/hash'' \<mapsto> ''0123abcd'']\<rparr>"

definition synced_world :: World where
  "synced_world =
     \<lparr>balancers = [''u1''], stored = Some synced_service, cluster_nodes = [ready_worker],
      status_write_error = None\<rparr>"

definition after_first_run :: "World Controller" where
  "after_first_run =
     \<lparr>world = synced_world\<lparr>stored := Some hashed_service\<rparr>,
      local_ctx = [''default/web'' \<mapsto> synced_service],
      calls = [CloudEnsureLoadBalancer synced_service [ready_worker],
               RecorderEvent synced_service ''Normal'' ''EnsuredLoadBalancer'',
               ClientPatchService synced_service hashed_service]\<rparr>"

text \<open>The same service after its type was changed to \<open>ClusterIP\<close>.\<close>

definition demoted_service :: Service where
  "demoted_service = sample_service ''u1'' ''ClusterIP'' ''Cluster'' sample_ingress"

definition demoted_start :: "World Controller" where
  "demoted_start =
     \<lparr>world = \<lparr>balancers = [''u1''], stored = Some demoted_service,
                cluster_nodes = [ready_worker], status_write_error = None\<rparr>,
      local_ctx = [''default/web'' \<mapsto> synced_service],
      calls = []\<rparr>"

text \<open>A service deleted and created again under the same key: the cache holds UID \<open>uid-A\<close>, the live object has UID \<open>uid-B\<close>.\<close>

definition old_service :: Service where
  "old_service = sample_service ''uid-A'' ''LoadBalancer'' ''Local'' sample_ingress"

definition recreated_service :: Service where
  "recreated_service = sample_service ''uid-B'' ''LoadBalancer'' ''Local'' []"

definition recreated_start :: "World Controller" where
  "recreated_start =
     \<lparr>world = \<lparr>balancers = [''uid-A''], stored = Some recreated_service,
                cluster_nodes = [ready_worker], status_write_error = None\<rparr>,
      local_ctx = [''default/web'' \<mapsto> old_service],
      calls = []\<rparr>"

definition conflict_world :: World where
  "conflict_world =
     \<lparr>balancers = [''uid-B''], stored = Some recreated_service, cluster_nodes = [ready_worker],
      status_write_error = Some conflict_error\<rparr>"

definition optimistic_lock_world :: World where
  "optimistic_lock_world =
     \<lparr>balancers = [''uid-B''], stored = Some recreated_service, cluster_nodes = [ready_worker],
      status_write_error = Some optimistic_lock_error\<rparr>"

definition empty_world :: World where
  "empty_world =
     \<lparr>balancers = [], stored = None, cluster_nodes = [ready_worker], status_write_error = None\<rparr>"

section \<open>Properties of the float arithmetic\<close>

lemma div_lower_bound:
  fixes a b c :: int
  assumes "0 < c" and "a * c \<le> b"
  shows "a \<le> b div c"
proof -
  have "(a * c) div c \<le> b div c"
    using assms by (intro zdiv_mono1)
  then show ?thesis using assms(1) by simp
qed

lemma div_upper_bound:
  fixes a b c :: int
  assumes "0 < c" and "b < a * c"
  shows "b div c < a"
proof (rule ccontr)
  assume "\<not> b div c < a"
  then have "a \<le> b div c" by simp
  then have "a * c \<le> (b div c) * c"
    using assms(1) by (intro mult_right_mono) simp_all
  moreover have "(b div c) * c \<le> b"
  proof -
    have "c * (b div c) + b mod c = b" by (rule mult_div_mod_eq)
    moreover have "0 \<le> b mod c" using assms(1) by simp
    ultimately have "c * (b div c) \<le> b" by linarith
    then show ?thesis by (simp add: mult.commute)
  qed
  ultimately show False using assms(2) by linarith
qed

lemma round_f64_exact:
  assumes "\<bar>m\<bar> < 2 ^ 53" and "- 1074 \<le> e" and "e \<le> 971"
  shows "round_f64 m e = Finite m e"
proof -
  have b: "bitlen \<bar>m\<bar> \<le> 53"
    using assms(1) by (simp add: bitlen_le_iff_power)
  then have "dropped_bits m e \<le> 0"
    using assms(2) by (simp add: dropped_bits_def)
  moreover have "bitlen \<bar>m\<bar> + e \<le> 1024"
    using b assms(3) by linarith
  ultimately show ?thesis
    by (simp add: round_f64_def finite_or_inf_def)
qed

lemma int64_to_float64_exact:
  assumes "\<bar>d\<bar> < 2 ^ 53"
  shows "int64_to_float64 d = Finite d 0"
  using assms by (simp add: int64_to_float64_def round_f64_exact)

lemma truncated_nonneg:
  assumes "0 \<le> n"
  shows "truncated n t = (if 0 \<le> t then n * 2 ^ nat t else n div 2 ^ nat (- t))"
  using assms by (cases "n = 0") (simp_all add: truncated_def)

lemma scaled_three_halves:
  assumes "0 \<le> d" and "d < 2 ^ 51"
  shows "scaled d (Finite 3 (- 1)) = 3 * d div 2"
proof -
  have d53: "\<bar>d\<bar> < 2 ^ 53" using assms by simp
  have p53: "\<bar>d * 3\<bar> < 2 ^ 53" using assms by simp
  have "fmul (int64_to_float64 d) (Finite 3 (- 1)) = Finite (d * 3) (- 1)"
    using d53 p53 by (simp add: int64_to_float64_exact round_f64_exact)
  moreover have "truncated (d * 3) (- 1) = 3 * d div 2"
    using assms by (simp add: truncated_nonneg mult.commute)
  moreover have "MinInt64 \<le> 3 * d div 2" "3 * d div 2 \<le> MaxInt64"
    using assms by (simp_all add: MinInt64_def MaxInt64_def)
  ultimately show ?thesis
    by (simp add: scaled_def)
qed

lemma factor_facts:
  assumes ge: "1 \<le> float64_value (Finite m e)"
    and le: "float64_value (Finite m e) \<le> 2 ^ 25"
  shows "0 < m"
    and "0 \<le> e \<Longrightarrow> m * 2 ^ nat e \<le> 2 ^ 25"
    and "e < 0 \<Longrightarrow> 2 ^ nat (- e) \<le> m"
    and "e < 0 \<Longrightarrow> m \<le> 2 ^ 25 * 2 ^ nat (- e)"
    and "e \<le> 25"
proof -
  show m: "0 < m"
  proof (cases "0 \<le> e")
    case True
    with ge have "(1::rat) \<le> of_int (m * 2 ^ nat e)"
      by (simp add: float64_value_def)
    then have "1 \<le> m * 2 ^ nat e" by linarith
    then have "0 < m * 2 ^ nat e" by linarith
    then show ?thesis
      by (simp add: zero_less_mult_iff)
  next
    case False
    with ge have "(1::rat) \<le> of_int m / of_int (2 ^ nat (- e))"
      by (simp add: float64_value_def)
    then have "(of_int (2 ^ nat (- e)) :: rat) \<le> of_int m"
      by (simp add: le_divide_eq)
    then have "2 ^ nat (- e) \<le> m" by (simp only: of_int_le_iff)
    moreover have "(0::int) < 2 ^ nat (- e)" by simp
    ultimately show ?thesis by linarith
  qed
  show a: "m * 2 ^ nat e \<le> 2 ^ 25" if "0 \<le> e"
  proof -
    from le that have "(of_int (m * 2 ^ nat e) :: rat) \<le> of_int (2 ^ 25)"
      by (simp add: float64_value_def)
    then show ?thesis by (simp only: of_int_le_iff)
  qed
  show "2 ^ nat (- e) \<le> m" if "e < 0"
  proof -
    from ge that have "(1::rat) \<le> of_int m / of_int (2 ^ nat (- e))"
      by (simp add: float64_value_def)
    then have "(of_int (2 ^ nat (- e)) :: rat) \<le> of_int m"
      by (simp add: le_divide_eq)
    then show ?thesis by (simp only: of_int_le_iff)
  qed
  show "m \<le> 2 ^ 25 * 2 ^ nat (- e)" if "e < 0"
  proof -
    from le that have "(of_int m :: rat) / of_int (2 ^ nat (- e)) \<le> of_int (2 ^ 25)"
      by (simp add: float64_value_def)
    then have "(of_int m :: rat) \<le> of_int (2 ^ 25) * of_int (2 ^ nat (- e))"
      by (simp add: divide_le_eq)
    then have "(of_int m :: rat) \<le> of_int (2 ^ 25 * 2 ^ nat (- e))"
      by simp
    then show ?thesis by (simp only: of_int_le_iff)
  qed
  show "e \<le> 25"
  proof (cases "0 \<le> e")
    case True
    have "(2::int) ^ nat e \<le> m * 2 ^ nat e" using m by simp
    also have "\<dots> \<le> 2 ^ 25" using a [OF True] .
    finally have p: "(2::int) ^ nat e \<le> 2 ^ 25" .
    have "nat e \<le> 25"
      by (rule power_le_imp_le_exp [OF _ p]) simp
    then show ?thesis by linarith
  next
    case False
    then show ?thesis by simp
  qed
qed

lemma float64_to_int64_in_range:
  assumes "0 \<le> truncated m e" and "truncated m e \<le> 2 ^ 62"
  shows "float64_to_int64 (Finite m e) = truncated m e"
  using assms by (simp add: MinInt64_def MaxInt64_def)

lemma scaled_grows:
  assumes d0: "0 \<le> d" and d1: "d < 2 ^ 37"
    and wf: "is_float64 (Finite m e)"
    and ge: "1 \<le> float64_value (Finite m e)"
    and le: "float64_value (Finite m e) \<le> 2 ^ 25"
  shows "d \<le> scaled d (Finite m e)"
proof -
  note ff = factor_facts [OF ge le]
  from wf have e_lo: "- 1074 \<le> e" by (simp add: is_float64_def)
  define P where "P = d * m"
  have P0: "0 \<le> P" using d0 ff(1) by (simp add: P_def)
  have d53: "\<bar>d\<bar> < 2 ^ 53" using d0 d1 by simp
  have fm: "scaled d (Finite m e) = float64_to_int64 (round_f64 P e)"
    using d53 by (simp add: scaled_def int64_to_float64_exact P_def)
  have lowA: "d \<le> P * 2 ^ nat e" if "0 \<le> e"
  proof -
    have "(1::int) \<le> 2 ^ nat e" by simp
    with ff(1) have "1 * 1 \<le> m * 2 ^ nat e"
      by (intro mult_mono) simp_all
    then have "d * 1 \<le> d * (m * 2 ^ nat e)"
      using d0 by (intro mult_left_mono) simp_all
    then show ?thesis by (simp add: P_def mult.assoc)
  qed
  have lowB: "d * 2 ^ nat (- e) \<le> P" if "e < 0"
    unfolding P_def using ff(3) [OF that] d0 by (intro mult_left_mono)
  have upA: "P * 2 ^ nat e < 2 ^ 62" if "0 \<le> e"
  proof -
    have "P * 2 ^ nat e = d * (m * 2 ^ nat e)" by (simp add: P_def mult.assoc)
    also have "\<dots> \<le> d * 2 ^ 25" using ff(2) [OF that] d0 by (intro mult_left_mono)
    also have "\<dots> < 2 ^ 62" using d1 by simp
    finally show ?thesis .
  qed
  have upB: "P < 2 ^ 62 * 2 ^ nat (- e)" if "e < 0"
  proof -
    have "P \<le> d * (2 ^ 25 * 2 ^ nat (- e))"
      unfolding P_def using ff(4) [OF that] d0 by (intro mult_left_mono)
    also have "\<dots> = (d * 2 ^ 25) * 2 ^ nat (- e)" by simp
    also have "\<dots> < 2 ^ 62 * 2 ^ nat (- e)"
      using d1 by (intro mult_strict_right_mono) simp_all
    finally show ?thesis .
  qed
  have F1: "bitlen P + e \<le> 62"
  proof -
    have "P < 2 ^ nat (62 - e)"
    proof (cases "0 \<le> e")
      case True
      have "nat (62 - e) + nat e = 62" using True ff(5) by simp
      then have "(2::int) ^ 62 = 2 ^ nat (62 - e) * 2 ^ nat e"
        by (simp only: power_add [symmetric])
      with upA [OF True] have "P * 2 ^ nat e < 2 ^ nat (62 - e) * 2 ^ nat e" by simp
      then show ?thesis by (simp only: mult_less_cancel_right) simp
    next
      case False
      then have "nat (62 - e) = 62 + nat (- e)" by simp
      then have "(2::int) ^ nat (62 - e) = 2 ^ 62 * 2 ^ nat (- e)"
        by (simp only: power_add)
      with upB False show ?thesis by simp
    qed
    moreover have "0 \<le> 62 - e" using ff(5) by simp
    ultimately have "bitlen P \<le> 62 - e" by (simp add: bitlen_le_iff_power)
    then show ?thesis by simp
  qed
  show ?thesis
  proof (cases "bitlen P \<le> 53")
    case True
    then have "dropped_bits P e \<le> 0"
      using e_lo P0 by (simp add: dropped_bits_def)
    then have fin: "round_f64 P e = Finite P e"
      using F1 P0 by (simp add: round_f64_def finite_or_inf_def)
    show ?thesis
    proof (cases "0 \<le> e")
      case True
      have t: "truncated P e = P * 2 ^ nat e"
        using P0 True by (simp add: truncated_nonneg)
      have "0 \<le> P * 2 ^ nat e" using P0 by simp
      moreover have "P * 2 ^ nat e \<le> 2 ^ 62" using upA [OF True] by simp
      ultimately have "float64_to_int64 (Finite P e) = P * 2 ^ nat e"
        using float64_to_int64_in_range [of P e] by (simp only: t)
      then show ?thesis
        using lowA [OF True] by (simp add: fm fin)
    next
      case False
      then have neg: "e < 0" by simp
      have t: "truncated P e = P div 2 ^ nat (- e)"
        using P0 False by (simp add: truncated_nonneg)
      have lo: "d \<le> P div 2 ^ nat (- e)"
        using lowB [OF neg] by (intro div_lower_bound) simp_all
      have "P div 2 ^ nat (- e) < 2 ^ 62"
        using upB [OF neg] by (intro div_upper_bound) simp_all
      then have "P div 2 ^ nat (- e) \<le> 2 ^ 62" by simp
      moreover have "0 \<le> P div 2 ^ nat (- e)" using lo d0 by simp
      ultimately have "float64_to_int64 (Finite P e) = P div 2 ^ nat (- e)"
        using float64_to_int64_in_range [of P e] by (simp only: t)
      then show ?thesis
        using lo by (simp add: fm fin)
    qed
  next
    case False
    define s where "s = nat (bitlen P - 53)"
    have s: "int s = bitlen P - 53" and spos: "0 < s"
      using False by (simp_all add: s_def)
    have Ppos: "0 < P"
      using False P0 by (cases "P = 0") simp_all
    have "- 1074 - e \<le> bitlen P - 53" using e_lo False by linarith
    then have drop: "dropped_bits P e = int s"
      using Ppos by (simp add: dropped_bits_def s max_def)
    have e1: "nat (bitlen P - 1) = 52 + s" and e2: "nat (bitlen P) = 53 + s"
      using s by simp_all
    from bitlen_bounds [OF Ppos] have lo: "2 ^ 52 * 2 ^ s \<le> P" and hi: "P < 2 ^ 53 * 2 ^ s"
      by (simp_all only: e1 e2 power_add)
    define q where "q = P div 2 ^ s"
    have q_lo: "2 ^ 52 \<le> q"
      unfolding q_def using lo by (intro div_lower_bound) simp_all
    have q_hi: "q < 2 ^ 53"
      unfolding q_def using hi by (intro div_upper_bound) simp_all
    define n where "n = rne_shift P s"
    have n_lo: "q \<le> n" and n_hi: "n \<le> q + 1"
      using Ppos by (simp_all add: n_def rne_shift_def q_def)
    have n0: "0 \<le> n" using q_lo n_lo by simp
    have "bitlen \<bar>n\<bar> \<le> 54"
      using n0 n_hi q_hi by (simp add: bitlen_le_iff_power)
    then have "bitlen \<bar>n\<bar> + (e + int s) \<le> 1024"
      using F1 s by linarith
    then have fin: "round_f64 P e = Finite n (e + int s)"
      using spos by (simp add: round_f64_def drop finite_or_inf_def n_def)
    show ?thesis
    proof (cases "0 \<le> e + int s")
      case True
      have t: "truncated n (e + int s) = n * 2 ^ nat (e + int s)"
        using n0 True by (simp add: truncated_nonneg)
      have "n * 1 \<le> n * 2 ^ nat (e + int s)"
        using n0 by (intro mult_left_mono) simp_all
      then have a: "n \<le> n * 2 ^ nat (e + int s)" by (simp only: mult_1_right)
      have "d < 2 ^ 52" using d1 by simp
      then have lo': "d \<le> n * 2 ^ nat (e + int s)"
        using a q_lo n_lo by linarith
      have "nat (e + int s) \<le> 9" using F1 s by linarith
      then have "(2::int) ^ nat (e + int s) \<le> 2 ^ 9"
        by (intro power_increasing) simp_all
      moreover have "n \<le> 2 ^ 53" using n_hi q_hi by simp
      ultimately have "n * 2 ^ nat (e + int s) \<le> 2 ^ 53 * 2 ^ 9"
        using n0 by (intro mult_mono) simp_all
      then have "n * 2 ^ nat (e + int s) \<le> 2 ^ 62" by simp
      moreover have "0 \<le> n * 2 ^ nat (e + int s)" using lo' d0 by simp
      ultimately have "float64_to_int64 (Finite n (e + int s)) = n * 2 ^ nat (e + int s)"
        using float64_to_int64_in_range [of n "e + int s"] by (simp only: t)
      then show ?thesis
        using lo' by (simp add: fm fin)
    next
      case False
      define j where "j = nat (- (e + int s))"
      have neg: "e < 0" using False by simp
      have k: "nat (- e) = j + s" using False by (simp add: j_def)
      have t: "truncated n (e + int s) = n div 2 ^ j"
        using n0 False by (simp add: truncated_nonneg j_def)
      have "(d * 2 ^ j) * 2 ^ s \<le> P"
        using lowB [OF neg] by (simp add: k power_add mult.assoc)
      then have "d * 2 ^ j \<le> q"
        unfolding q_def by (intro div_lower_bound) simp_all
      then have "d * 2 ^ j \<le> n" using n_lo by simp
      then have lo': "d \<le> n div 2 ^ j"
        by (intro div_lower_bound) simp_all
      have "(2::int) ^ 62 * 1 \<le> 2 ^ 62 * 2 ^ j"
        by (intro mult_left_mono) simp_all
      then have b: "(2::int) ^ 62 \<le> 2 ^ 62 * 2 ^ j" by (simp only: mult_1_right)
      have "n < 2 ^ 62" using n_hi q_hi by simp
      then have "n < 2 ^ 62 * 2 ^ j" using b by linarith
      then have "n div 2 ^ j < 2 ^ 62"
        by (intro div_upper_bound) simp_all
      then have "n div 2 ^ j \<le> 2 ^ 62" by simp
      moreover have "0 \<le> n div 2 ^ j" using lo' d0 by simp
      ultimately have "float64_to_int64 (Finite n (e + int s)) = n div 2 ^ j"
        using float64_to_int64_in_range [of n "e + int s"] by (simp only: t)
      then show ?thesis
        using lo' by (simp add: fm fin)
    qed
  qed
qed

text \<open>
  The model rounds as the hardware does: 5 s times 1.13 and 3 s times 1.15 (the doubles
  nearest to 1.13 and 1.15) fall one nanosecond short of the exact products, and the
  largest \<open>int64\<close> times 1.5 is out of range.
\<close>

lemma scaled_rounds:
  "scaled 5000000000 (Finite 1272266894732165 (- 50)) = 5649999999"
  "scaled 3000000000 (Finite 2589569785738035 (- 51)) = 3449999999"
  "scaled 9223372036854775807 (Finite 3 (- 1)) = MinInt64"
  by code_simp+

section \<open>Properties of the backoff\<close>

lemma Next_fst:
  "fst (Next now b) =
     (if scaled (b_next b) (b_factor b) > 120 * Second then 30 * Second
      else scaled (b_next b) (b_factor b))"
  by (simp add: Next_def Let_def)

lemma Next_snd:
  "snd (Next now b) = \<lparr>b_last = now, b_next = fst (Next now b), b_factor = b_factor b\<rparr>"
  by (simp add: Next_def Let_def)

lemma reachable_factor:
  assumes "reachable floor_delay factor b"
  shows "b_factor b = factor"
  using assms
  by (induction rule: reachable.induct) (simp_all add: NewBackoff_def Next_snd reset_tick_def)

text \<open>
  The worker's backoff, floor 5 s and factor 1.5, only ever holds a delay between 1 ns
  and 120 s, and on such a delay the float product is the exact one.
\<close>

lemma worker_scaled:
  assumes "0 \<le> d" and "d \<le> 120 * Second"
  shows "scaled d (Finite 3 (- 1)) = 3 * d div 2"
  using assms by (intro scaled_three_halves) (simp_all add: Second_def)

lemma worker_reachable_bounds:
  assumes "reachable (5 * Second) (Finite 3 (- 1)) b"
  shows "b_factor b = Finite 3 (- 1) \<and> 0 < b_next b \<and> b_next b \<le> 120 * Second"
  using assms
proof (induction rule: reachable.induct)
  case (initial t)
  show ?case by (simp add: NewBackoff_def Second_def)
next
  case (after_Next b t)
  then have f: "b_factor b = Finite 3 (- 1)" and p: "0 < b_next b" and c: "b_next b \<le> 120 * Second"
    by simp_all
  have s: "scaled (b_next b) (Finite 3 (- 1)) = 3 * b_next b div 2"
    using p c by (intro worker_scaled) simp_all
  have "0 < 3 * b_next b div 2" using p by linarith
  then show ?case
    by (simp add: Next_snd Next_fst f s Second_def)
next
  case (after_tick b t)
  then show ?case by (simp add: reset_tick_def Second_def)
qed

lemma factor_finite:
  assumes "1 \<le> float64_value f"
  obtains m e where "f = Finite m e"
  using assms by (cases f) (simp_all add: float64_value_def)

lemma Next_seq_shape:
  assumes "0 \<le> b_next b" and "b_next b \<le> 120 * Second"
    and "is_float64 (b_factor b)"
    and "1 \<le> float64_value (b_factor b)" and "float64_value (b_factor b) \<le> 2 ^ 25"
  shows "(\<forall>d \<in> set (Next_seq ts b). d \<le> 120 * Second)
       \<and> successively
           (\<lambda>d d'. if 120 * Second < scaled d (b_factor b) then d' = 30 * Second
                    else d' = scaled d (b_factor b) \<and> d \<le> d')
           (b_next b # Next_seq ts b)"
  using assms
proof (induction ts arbitrary: b)
  case Nil
  show ?case by simp
next
  case (Cons t ts)
  let ?b' = "snd (Next t b)"
  obtain m e where fin: "b_factor b = Finite m e"
    using Cons.prems(4) by (rule factor_finite)
  have small: "b_next b < 2 ^ 37"
    using Cons.prems(2) by (simp add: Second_def)
  have grows: "b_next b \<le> scaled (b_next b) (b_factor b)"
    using Cons.prems(1) small Cons.prems(3,4,5) unfolding fin by (rule scaled_grows)
  have fac: "b_factor ?b' = b_factor b" by (simp add: Next_snd)
  have nxt: "b_next ?b' = fst (Next t b)" by (simp add: Next_snd)
  have cap: "fst (Next t b) \<le> 120 * Second" by (simp add: Next_fst Second_def)
  have pos: "0 \<le> fst (Next t b)"
    using Cons.prems(1) grows by (simp add: Next_fst Second_def)
  have step: "if 120 * Second < scaled (b_next b) (b_factor b) then fst (Next t b) = 30 * Second
              else fst (Next t b) = scaled (b_next b) (b_factor b) \<and> b_next b \<le> fst (Next t b)"
    using grows by (simp add: Next_fst)
  have p1: "0 \<le> b_next ?b'" and p2: "b_next ?b' \<le> 120 * Second"
    using pos cap by (simp_all only: nxt)
  have p3: "is_float64 (b_factor ?b')" and p4: "1 \<le> float64_value (b_factor ?b')"
    and p5: "float64_value (b_factor ?b') \<le> 2 ^ 25"
    using Cons.prems(3,4,5) by (simp_all only: fac)
  from Cons.IH [OF p1 p2 p3 p4 p5]
  have ih: "(\<forall>d \<in> set (Next_seq ts ?b'). d \<le> 120 * Second)
       \<and> successively
           (\<lambda>d d'. if 120 * Second < scaled d (b_factor b) then d' = 30 * Second
                    else d' = scaled d (b_factor b) \<and> d \<le> d')
           (fst (Next t b) # Next_seq ts ?b')"
    unfolding fac nxt .
  show ?case
    using ih cap step by simp
qed

text \<open>
  C5, as the claim states it, fails for the backoff the worker loop builds: eight calls
  of \<open>Next\<close> in a row, no ticker firing in between, return 85.4296875 s and then 30 s.
\<close>

theorem Next_seq_not_sorted:
  "\<not> sorted (Next_seq [0, 0, 0, 0, 0, 0, 0, 0] (NewBackoff 0 (5 * Second) (Finite 3 (- 1))))"
  by (simp add: NewBackoff_def Next_fst Next_snd Second_def scaled_three_halves)

text \<open>
  C5 (amended): for a backoff whose delay lies between 0 and 120 s and whose growth
  factor is a \<open>float64\<close> between 1 and \<open>2^25\<close> (the worker's 5 s and 1.5 among them),
  calling \<open>Next\<close> any number of times with no quiet period yields delays that are all at
  most the ceiling of 120 s. Each delay is the previous one multiplied by the factor
  (the \<open>float64\<close> product cut to whole nanoseconds) and is at least the previous one,
  except where that product exceeds 120 s: there, and only there, the delay is exactly
  30 s. The first delay relates in this way to the delay the backoff started with.
\<close>

theorem Next_seq_capped_monotone_between_resets:
  assumes "0 \<le> b_next b" and "b_next b \<le> 120 * Second"
    and "is_float64 (b_factor b)"
    and "1 \<le> float64_value (b_factor b)" and "float64_value (b_factor b) \<le> 2 ^ 25"
  shows "(\<forall>d \<in> set (Next_seq ts b). d \<le> 120 * Second)
       \<and> successively
           (\<lambda>d d'. if 120 * Second < scaled d (b_factor b) then d' = 30 * Second
                    else d' = scaled d (b_factor b) \<and> d \<le> d')
           (b_next b # Next_seq ts b)"
  using assms by (rule Next_seq_shape)

theorem Next_seq_capped_monotone_between_resets_witness:
  "0 \<le> b_next (NewBackoff 0 (5 * Second) (Finite 3 (- 1)))
   \<and> b_next (NewBackoff 0 (5 * Second) (Finite 3 (- 1))) \<le> 120 * Second
   \<and> is_float64 (b_factor (NewBackoff 0 (5 * Second) (Finite 3 (- 1))))
   \<and> 1 \<le> float64_value (b_factor (NewBackoff 0 (5 * Second) (Finite 3 (- 1))))
   \<and> float64_value (b_factor (NewBackoff 0 (5 * Second) (Finite 3 (- 1)))) \<le> 2 ^ 25
   \<and> Next_seq [0, 1, 2, 3, 4, 5, 6, 7] (NewBackoff 0 (5 * Second) (Finite 3 (- 1)))
       = [7500000000, 11250000000, 16875000000, 25312500000, 37968750000, 56953125000,
          85429687500, 30000000000]
   \<and> list_all (\<lambda>d. d \<le> 120 * Second)
        (Next_seq [0, 1, 2, 3, 4, 5, 6, 7] (NewBackoff 0 (5 * Second) (Finite 3 (- 1))))
   \<and> successively
        (\<lambda>d d'. if 120 * Second < scaled d (Finite 3 (- 1)) then d' = 30 * Second
                 else d' = scaled d (Finite 3 (- 1)) \<and> d \<le> d')
        (5 * Second
           # Next_seq [0, 1, 2, 3, 4, 5, 6, 7] (NewBackoff 0 (5 * Second) (Finite 3 (- 1))))"
proof -
  let ?b = "NewBackoff 0 (5 * Second) (Finite 3 (- 1))"
  have h1: "0 \<le> b_next ?b" and h2: "b_next ?b \<le> 120 * Second"
    by (simp_all add: NewBackoff_def Second_def)
  have h3: "is_float64 (b_factor ?b)"
    by (simp add: NewBackoff_def is_float64_def)
  have h4: "1 \<le> float64_value (b_factor ?b)" and h5: "float64_value (b_factor ?b) \<le> 2 ^ 25"
    by (simp_all add: NewBackoff_def float64_value_def)
  have run: "Next_seq [0, 1, 2, 3, 4, 5, 6, 7] ?b
       = [7500000000, 11250000000, 16875000000, 25312500000, 37968750000, 56953125000,
          85429687500, 30000000000]"
    by (simp add: NewBackoff_def Next_fst Next_snd Second_def scaled_three_halves)
  have f: "b_factor ?b = Finite 3 (- 1)" and n: "b_next ?b = 5 * Second"
    by (simp_all add: NewBackoff_def)
  from Next_seq_capped_monotone_between_resets [OF h1 h2 h3 h4 h5, of "[0, 1, 2, 3, 4, 5, 6, 7]"]
  have "list_all (\<lambda>d. d \<le> 120 * Second) (Next_seq [0, 1, 2, 3, 4, 5, 6, 7] ?b)
     \<and> successively
        (\<lambda>d d'. if 120 * Second < scaled d (Finite 3 (- 1)) then d' = 30 * Second
                 else d' = scaled d (Finite 3 (- 1)) \<and> d \<le> d')
        (5 * Second # Next_seq [0, 1, 2, 3, 4, 5, 6, 7] ?b)"
    unfolding f n list_all_iff by blast
  with h1 h2 h3 h4 h5 run show ?thesis by blast
qed

text \<open>
  C10: every value returned by \<open>Next\<close> is at most 120 s, and whenever the multiplied
  delay, that is the duration \<open>time.Duration(float64(b.next) * b.factor)\<close> which \<open>Next\<close>
  stores before its guard, exceeds 120 s, the returned value is exactly 30 s. Both hold in
  every state of the struct. In every state that the worker loop's backoff (floor 5 s,
  factor 1.5) reaches, the delay is positive and at most 120 s and the float product is
  exact, so there the returned value is 30 s whenever 1.5 times the delay exceeds 120 s.
\<close>

theorem Next_at_most_ceiling:
  "fst (Next now b) \<le> 120 * Second
   \<and> (120 * Second < scaled (b_next b) (b_factor b) \<longrightarrow> fst (Next now b) = 30 * Second)
   \<and> (reachable (5 * Second) (Finite 3 (- 1)) b \<longrightarrow>
        0 < b_next b \<and> b_next b \<le> 120 * Second
        \<and> (2 * (120 * Second) < 3 * b_next b \<longrightarrow> fst (Next now b) = 30 * Second))"
proof -
  have always: "fst (Next now b) \<le> 120 * Second"
    by (simp add: Next_fst Second_def)
  have guard: "fst (Next now b) = 30 * Second" if "120 * Second < scaled (b_next b) (b_factor b)"
    using that by (simp add: Next_fst)
  have worker: "0 < b_next b \<and> b_next b \<le> 120 * Second
        \<and> (2 * (120 * Second) < 3 * b_next b \<longrightarrow> fst (Next now b) = 30 * Second)"
    if r: "reachable (5 * Second) (Finite 3 (- 1)) b"
  proof -
    from worker_reachable_bounds [OF r]
    have f: "b_factor b = Finite 3 (- 1)" and p: "0 < b_next b" and c: "b_next b \<le> 120 * Second"
      by simp_all
    have s: "scaled (b_next b) (b_factor b) = 3 * b_next b div 2"
      unfolding f using p c by (intro worker_scaled) simp_all
    have "120 * Second < 3 * b_next b div 2" if "2 * (120 * Second) < 3 * b_next b"
      using that by (simp add: Second_def)
    then show ?thesis
      using p c guard by (simp add: s)
  qed
  show ?thesis
    using always guard worker by blast
qed

theorem Next_at_most_ceiling_witness:
  "reachable (5 * Second) (Finite 3 (- 1))
      \<lparr>b_last = 6, b_next = 85429687500, b_factor = Finite 3 (- 1)\<rparr>
   \<and> 2 * (120 * Second) < 3 * b_next \<lparr>b_last = 6, b_next = 85429687500, b_factor = Finite 3 (- 1)\<rparr>
   \<and> 120 * Second < scaled 85429687500 (Finite 3 (- 1))
   \<and> fst (Next 7 \<lparr>b_last = 6, b_next = 85429687500, b_factor = Finite 3 (- 1)\<rparr>) = 30 * Second
   \<and> fst (Next 7 \<lparr>b_last = 6, b_next = 85429687500, b_factor = Finite 3 (- 1)\<rparr>) \<le> 120 * Second"
proof -
  let ?f = "Finite 3 (- 1)"
  have step: "reachable (5 * Second) ?f \<lparr>b_last = t, b_next = 3 * d div 2, b_factor = ?f\<rparr>"
    if "reachable (5 * Second) ?f \<lparr>b_last = l, b_next = d, b_factor = ?f\<rparr>"
      and "0 \<le> d" and "3 * d div 2 \<le> 120 * Second" for t l d
  proof -
    have "d \<le> 120 * Second" using that(2,3) by linarith
    then have "scaled d ?f = 3 * d div 2" using that(2) by (intro worker_scaled)
    then have "snd (Next t \<lparr>b_last = l, b_next = d, b_factor = ?f\<rparr>)
                 = \<lparr>b_last = t, b_next = 3 * d div 2, b_factor = ?f\<rparr>"
      using that(3) by (simp add: Next_snd Next_fst)
    with reachable.after_Next [OF that(1), of t] show ?thesis by simp
  qed
  have r0: "reachable (5 * Second) ?f \<lparr>b_last = 0, b_next = 5000000000, b_factor = ?f\<rparr>"
    using reachable.initial [of "5 * Second" ?f 0] by (simp add: NewBackoff_def Second_def)
  have r1: "reachable (5 * Second) ?f \<lparr>b_last = 0, b_next = 7500000000, b_factor = ?f\<rparr>"
    using step [OF r0, of 0] by (simp add: Second_def)
  have r2: "reachable (5 * Second) ?f \<lparr>b_last = 1, b_next = 11250000000, b_factor = ?f\<rparr>"
    using step [OF r1, of 1] by (simp add: Second_def)
  have r3: "reachable (5 * Second) ?f \<lparr>b_last = 2, b_next = 16875000000, b_factor = ?f\<rparr>"
    using step [OF r2, of 2] by (simp add: Second_def)
  have r4: "reachable (5 * Second) ?f \<lparr>b_last = 3, b_next = 25312500000, b_factor = ?f\<rparr>"
    using step [OF r3, of 3] by (simp add: Second_def)
  have r5: "reachable (5 * Second) ?f \<lparr>b_last = 4, b_next = 37968750000, b_factor = ?f\<rparr>"
    using step [OF r4, of 4] by (simp add: Second_def)
  have r6: "reachable (5 * Second) ?f \<lparr>b_last = 5, b_next = 56953125000, b_factor = ?f\<rparr>"
    using step [OF r5, of 5] by (simp add: Second_def)
  have r7: "reachable (5 * Second) ?f \<lparr>b_last = 6, b_next = 85429687500, b_factor = ?f\<rparr>"
    using step [OF r6, of 6] by (simp add: Second_def)
  have big: "2 * (120 * Second) < 3 * b_next \<lparr>b_last = 6, b_next = 85429687500, b_factor = ?f\<rparr>"
    by (simp add: Second_def)
  have code: "120 * Second < scaled 85429687500 ?f"
    by (simp add: scaled_three_halves Second_def)
  show ?thesis
    using r7 big code
      Next_at_most_ceiling [of 7 "\<lparr>b_last = 6, b_next = 85429687500, b_factor = ?f\<rparr>"]
    by simp
qed

text \<open>
  C6, as the claim states it, fails twice over. The worker's backoff is created at
  time 0 with floor 5 s and factor 1.5, the ticker fires 61 s later, and the following
  \<open>Next\<close> returns 7.5 s, not the floor. And a backoff created with a floor of 10 s is
  reset by the same firing to 5 s, not to its floor.
\<close>

theorem Next_after_reset_not_floor:
  "fst (Next (62 * Second)
         (reset_tick (61 * Second) (NewBackoff 0 (5 * Second) (Finite 3 (- 1)))))
     \<noteq> 5 * Second
   \<and> b_next (reset_tick (61 * Second) (NewBackoff 0 (10 * Second) (Finite 3 (- 1))))
     \<noteq> 10 * Second"
  by (simp add: NewBackoff_def reset_tick_def Next_fst Second_def Minute_def
      scaled_three_halves)

text \<open>
  C6 (amended): for a backoff initialised with a floor of 5 s, as the worker loop's is,
  in any state it has reached: when the ticker fires more than one minute after the last
  recorded throttle observation, the delay is reset to the floor the backoff was
  initialised with, and the next call of \<open>Next\<close> returns
  \<open>time.Duration(float64(floor) * factor)\<close>, the floor multiplied by the growth factor in
  \<open>float64\<close> and converted back to whole nanoseconds (7.5 s for the worker's factor 1.5),
  or 30 s if that value exceeds 120 s.
\<close>

theorem reset_tick_then_Next:
  assumes "reachable floor_delay factor b"
    and "floor_delay = 5 * Second"
    and "b_last b + Minute < now"
  shows "b_next (reset_tick now b) = floor_delay
       \<and> fst (Next now' (reset_tick now b)) =
           (if 120 * Second < scaled floor_delay factor then 30 * Second
            else scaled floor_delay factor)"
  using assms reachable_factor [OF assms(1)] by (simp add: reset_tick_def Next_fst)

theorem reset_tick_then_Next_witness:
  "reachable (5 * Second) (Finite 3 (- 1)) (snd (Next 0 (NewBackoff 0 (5 * Second) (Finite 3 (- 1)))))
   \<and> b_next (snd (Next 0 (NewBackoff 0 (5 * Second) (Finite 3 (- 1))))) = 7500000000
   \<and> b_last (snd (Next 0 (NewBackoff 0 (5 * Second) (Finite 3 (- 1))))) + Minute < 61 * Second
   \<and> b_next (reset_tick (61 * Second) (snd (Next 0 (NewBackoff 0 (5 * Second) (Finite 3 (- 1))))))
       = 5 * Second
   \<and> fst (Next (62 * Second)
           (reset_tick (61 * Second) (snd (Next 0 (NewBackoff 0 (5 * Second) (Finite 3 (- 1)))))))
       = 7500000000"
proof -
  let ?b = "snd (Next 0 (NewBackoff 0 (5 * Second) (Finite 3 (- 1))))"
  have r: "reachable (5 * Second) (Finite 3 (- 1)) ?b"
    by (intro reachable.after_Next reachable.initial)
  have d: "b_next ?b = 7500000000"
    by (simp add: Next_snd Next_fst NewBackoff_def Second_def scaled_three_halves)
  have q: "b_last ?b + Minute < 61 * Second"
    by (simp add: Next_snd Minute_def Second_def)
  have v: "scaled 5000000000 (Finite 3 (- 1)) = 7500000000"
    by (simp add: scaled_three_halves)
  show ?thesis
    using r d q reset_tick_then_Next [OF r refl q, of "62 * Second"]
    by (simp add: Second_def v)
qed

text \<open>
  C9: when the sync task fails with an error whose text does not contain
  \<open>Throttling\<close>, the worker requeues the key after the fixed 5 s and the backoff struct
  (last observation time and delay) is left as it was; when the text does contain
  \<open>Throttling\<close>, the key is requeued after the delay \<open>Next\<close> returns and the struct is
  the one \<open>Next\<close> leaves.
\<close>

theorem worker_iter_requeue:
  assumes "syncd k s = (Some err, s')"
  shows "(\<not> Contains (Error err) ''Throttling'' \<longrightarrow>
            worker_iter now syncd (k, False) (back, s)
              = ([AddAfter k (5 * Second), Done k], back, s'))
       \<and> (Contains (Error err) ''Throttling'' \<longrightarrow>
            worker_iter now syncd (k, False) (back, s)
              = ([AddAfter k (fst (Next now back)), Done k], snd (Next now back), s'))"
  using assms by (simp add: worker_iter_def)

theorem worker_iter_requeue_witness:
  "worker_iter 9 (\<lambda>k s. (Some (Errorf ''ensure loadbalancer error: boom''), Suc s))
       (''default/web'', False) (NewBackoff 0 (5 * Second) (Finite 3 (- 1)), 0::nat)
     = ([AddAfter ''default/web'' (5 * Second), Done ''default/web''],
        NewBackoff 0 (5 * Second) (Finite 3 (- 1)), 1)
   \<and> worker_iter 9 (\<lambda>k s. (Some (Errorf ''Throttling.User''), Suc s))
       (''default/web'', False) (NewBackoff 0 (5 * Second) (Finite 3 (- 1)), 0::nat)
     = ([AddAfter ''default/web'' 7500000000, Done ''default/web''],
        \<lparr>b_last = 9, b_next = 7500000000, b_factor = Finite 3 (- 1)\<rparr>, 1)"
proof -
  have a: "\<not> Contains (Error (Errorf ''ensure loadbalancer error: boom'')) ''Throttling''"
    by (simp add: Errorf_def)
  have b: "Contains (Error (Errorf ''Throttling.User'')) ''Throttling''"
    by (simp add: Errorf_def)
  have v: "fst (Next 9 (NewBackoff 0 (5 * Second) (Finite 3 (- 1)))) = 7500000000"
    by (simp add: Next_fst NewBackoff_def scaled_three_halves Second_def)
  have w: "snd (Next 9 (NewBackoff 0 (5 * Second) (Finite 3 (- 1))))
             = \<lparr>b_last = 9, b_next = 7500000000, b_factor = Finite 3 (- 1)\<rparr>"
    by (simp add: Next_snd v) (simp add: NewBackoff_def)
  show ?thesis
    using a b
      worker_iter_requeue [of "\<lambda>k s. (Some (Errorf ''ensure loadbalancer error: boom''), Suc s)"
        "''default/web''" "0::nat" "Errorf ''ensure loadbalancer error: boom''" 1 9
        "NewBackoff 0 (5 * Second) (Finite 3 (- 1))"]
      worker_iter_requeue [of "\<lambda>k s. (Some (Errorf ''Throttling.User''), Suc s)"
        "''default/web''" "0::nat" "Errorf ''Throttling.User''" 1 9
        "NewBackoff 0 (5 * Second) (Finite 3 (- 1))"]
    by (simp add: v w)
qed

section \<open>Properties of the node predicate\<close>

lemma conditions_ok_iff:
  "conditions_ok conds =
     (\<forall>cond \<in> set conds. CondType cond = NodeReady \<longrightarrow> CondStatus cond = ConditionTrue)"
  by (induction conds) auto

text \<open>
  C1, as the claim states it, fails in both directions: a master node that reports
  \<open>Ready = True\<close> is ineligible for a service with policy \<open>Cluster\<close> and eligible for one
  with policy \<open>Local\<close>.
\<close>

theorem master_cluster_excluded_local_admitted:
  "\<not> NodeConditionPredicate sample_utils
        (sample_service ''u1'' ''LoadBalancer'' ''Cluster'' []) ready_master
   \<and> NodeConditionPredicate sample_utils
        (sample_service ''u1'' ''LoadBalancer'' ''Local'' []) ready_master"
  by (simp add: NodeConditionPredicate_def sample_utils_def sample_service_def ready_master_def
      LabelNodeRoleMaster_def ServiceExternalTrafficPolicyTypeCluster_def NodeReady_def
      ConditionTrue_def lookup_def)

text \<open>
  C1 (amended): a node carrying the master role label is ineligible when the service's
  external traffic policy is \<open>Cluster\<close>. When the policy is \<open>Local\<close> the label does not
  exclude it: the node is eligible exactly when it is not excluded as unschedulable
  (the service's opt-in annotation being \<open>on\<close>) and it either carries the ECI type label
  or reports at least one condition and no \<open>Ready\<close> condition other than \<open>True\<close>.
\<close>

theorem master_node_eligibility:
  assumes "NodeLabels node LabelNodeRoleMaster \<noteq> None"
  shows "(ExternalTrafficPolicy svc = ServiceExternalTrafficPolicyTypeCluster \<longrightarrow>
            \<not> NodeConditionPredicate u svc node)
       \<and> (ExternalTrafficPolicy svc = ServiceExternalTrafficPolicyTypeLocal \<longrightarrow>
            NodeConditionPredicate u svc node =
              (\<not> (Unschedulable node
                  \<and> lookup (Annotations svc)
                       (ServiceAnnotationLoadBalancerRemoveUnscheduledBackend u) = ''on'')
               \<and> (NodeLabels node ''type'' = Some (ECINodeLabel u)
                  \<or> (Conditions node \<noteq> []
                     \<and> (\<forall>cond \<in> set (Conditions node).
                           CondType cond = NodeReady \<longrightarrow> CondStatus cond = ConditionTrue)))))"
proof -
  have ne: "ServiceExternalTrafficPolicyTypeLocal \<noteq> ServiceExternalTrafficPolicyTypeCluster"
    by (simp add: ServiceExternalTrafficPolicyTypeLocal_def
        ServiceExternalTrafficPolicyTypeCluster_def)
  show ?thesis
    using assms ne by (auto simp: NodeConditionPredicate_def conditions_ok_iff)
qed

theorem master_node_eligibility_witness:
  "NodeLabels ready_master LabelNodeRoleMaster \<noteq> None
   \<and> \<not> NodeConditionPredicate sample_utils
        (sample_service ''u1'' ''LoadBalancer'' ServiceExternalTrafficPolicyTypeCluster [])
        ready_master
   \<and> NodeConditionPredicate sample_utils
        (sample_service ''u1'' ''LoadBalancer'' ServiceExternalTrafficPolicyTypeLocal [])
        ready_master"
proof -
  have m: "NodeLabels ready_master LabelNodeRoleMaster \<noteq> None"
    by (simp add: ready_master_def)
  have c: "ExternalTrafficPolicy
      (sample_service ''u1'' ''LoadBalancer'' ServiceExternalTrafficPolicyTypeCluster [])
        = ServiceExternalTrafficPolicyTypeCluster"
    by (simp add: sample_service_def)
  have l: "ExternalTrafficPolicy
      (sample_service ''u1'' ''LoadBalancer'' ServiceExternalTrafficPolicyTypeLocal [])
        = ServiceExternalTrafficPolicyTypeLocal"
    by (simp add: sample_service_def)
  have u: "\<not> Unschedulable ready_master"
    by (simp add: ready_master_def)
  have r: "Conditions ready_master = [\<lparr>CondType = ''Ready'', CondStatus = ''True''\<rparr>]"
    by (simp add: ready_master_def)
  show ?thesis
    using m
      master_node_eligibility [OF m, of
        "sample_service ''u1'' ''LoadBalancer'' ServiceExternalTrafficPolicyTypeCluster []"
        sample_utils]
      master_node_eligibility [OF m, of
        "sample_service ''u1'' ''LoadBalancer'' ServiceExternalTrafficPolicyTypeLocal []"
        sample_utils]
    by (simp add: c l u r NodeReady_def ConditionTrue_def)
qed

section \<open>Properties of the reconciler\<close>

lemmas run_defs =
  fake_deps_def sample_utils_def sample_service_def stored_get_def start_def sample_ingress_def
  update_def update_needed_def update_not_needed_def finish_update_def updateStatus_def
  persist_status_def retry_def retry_condition_def ExponentialBackoff_def delete_def
  addServiceHash_def removeServiceHash_def AvailableNodes_def LoadBalancerStatusEqual_def
  logged_def Eventf_def Context_Get_def Context_Set_def Context_Remove_def key_def
  Errorf_def TRY_AGAIN_def IsNotFound_def IsConflict_def eval_nat_numeral ServiceSyncTask_def
  SplitMetaNamespaceKey_def NodeConditionPredicate_def ready_worker_def LabelNodeRoleMaster_def
  lookup_def NodeReady_def ConditionTrue_def EventTypeNormal_def EventTypeWarning_def
  conflict_error_def synced_service_def hashed_service_def synced_world_def
  after_first_run_def demoted_service_def demoted_start_def old_service_def
  recreated_service_def recreated_start_def conflict_world_def empty_world_def
  optimistic_lock_error_def optimistic_lock_world_def ErrWaitTimeout_def
  ServiceExternalTrafficPolicyTypeCluster_def

lemma attempts_done:
  assumes "condition s = ((True, None), s')" and "0 < n"
  shows "attempts n condition s = (None, s')"
  using assms by (cases n) simp_all

lemma persist_status_appends:
  "\<exists>xs. calls (snd (persist_status d n svc c)) = calls c @ xs"
  by (auto simp: persist_status_def logged_def split: prod.splits sum.splits option.splits)

lemma attempts_appends:
  assumes "\<And>s. \<exists>xs. calls (snd (condition s)) = calls s @ xs"
  shows "\<exists>xs. calls (snd (attempts n condition s)) = calls s @ xs"
proof (induction n arbitrary: s)
  case 0
  show ?case by simp
next
  case (Suc n)
  obtain ok err s' where c: "condition s = ((ok, err), s')"
    by (cases "condition s") auto
  from assms [of s] c obtain xs where xs: "calls s' = calls s @ xs"
    by auto
  from Suc.IH [of s'] obtain ys where "calls (snd (attempts n condition s')) = calls s' @ ys"
    by auto
  with c xs show ?case by auto
qed

lemma retry_condition_snd: "snd (retry_condition f svc s) = snd (f svc s)"
  by (auto simp: retry_condition_def split: prod.splits option.splits)

lemma retry_appends:
  assumes "\<And>s. \<exists>xs. calls (snd (f svc s)) = calls s @ xs"
  shows "\<exists>xs. calls (snd (retry backoff f svc c)) = calls c @ xs"
  unfolding retry_def ExponentialBackoff_def
  by (rule attempts_appends) (simp add: retry_condition_snd assms)

lemma updateStatus_appends:
  "\<exists>xs. calls (snd (updateStatus d svc pre newm c)) = calls c @ xs"
proof (cases newm)
  case None
  then show ?thesis by (simp add: updateStatus_def)
next
  case (Some n)
  show ?thesis
  proof (cases "LoadBalancerStatusEqual pre n")
    case True
    with Some show ?thesis by (simp add: updateStatus_def)
  next
    case False
    with Some show ?thesis
      using retry_appends [of "persist_status d n" svc, OF persist_status_appends]
      by (simp add: updateStatus_def)
  qed
qed

lemma finish_update_appends:
  "\<exists>xs. calls (snd (finish_update d svc pre newm c)) = calls c @ xs"
proof -
  obtain r c' where u: "updateStatus d svc pre newm c = (r, c')"
    by (cases "updateStatus d svc pre newm c") auto
  with updateStatus_appends [of d svc pre newm c] show ?thesis
    by (cases r) (auto simp: finish_update_def Context_Set_def)
qed

lemma finish_update_unchanged:
  assumes "LoadBalancerStatusEqual pre st"
  shows "calls (snd (finish_update d svc pre (Some st) c)) = calls c"
  using assms by (simp add: finish_update_def updateStatus_def Context_Set_def)

lemma addServiceHash_quiet:
  "\<exists>xs. calls (snd (addServiceHash d svc c)) = calls c @ xs \<and> \<not> list_ex is_status_write xs"
  by (auto simp: addServiceHash_def logged_def split: sum.splits prod.splits option.splits)

text \<open>
  What \<open>retry\<close> does with an error that is not a "try again" error: the first attempt is
  the last, and the error is dropped.
\<close>

lemma retry_drops_other_errors:
  assumes "f svc s = (Some e, s')" and "\<not> Contains (Error e) TRY_AGAIN"
    and "case backoff of None \<Rightarrow> True | Some b \<Rightarrow> 0 < Steps b"
  shows "retry backoff f svc s = (None, s')"
proof -
  have cond: "retry_condition f svc s = ((True, None), s')"
    using assms(1,2) by (simp add: retry_condition_def)
  show ?thesis
    using assms(3)
    by (cases backoff)
      (simp_all add: retry_def ExponentialBackoff_def
         attempts_done [where condition = "retry_condition f svc", OF cond])
qed

lemma finish_update_success:
  assumes "finish_update d svc pre newm c = (None, c')"
  shows "local_ctx c' (key svc) = Some svc"
  using assms
  by (auto simp: finish_update_def Context_Set_def split: prod.splits option.splits)

text \<open>
  Every successful run of \<open>update\<close> that does not take the UID-change exit ends with the
  object stored in the cache, whether or not the service needs a load balancer.
\<close>

lemma update_success_caches:
  assumes "update d cached svc c = (None, c')"
    and "case cached of None \<Rightarrow> True | Some cs \<Rightarrow> UID cs = UID svc"
  shows "local_ctx c' (key svc) = Some svc"
proof (cases "NeedLoadBalancer d svc")
  case True
  then have "update_needed d svc (StatusLoadBalancer svc) c = (None, c')"
    using assms by (cases cached) (simp_all add: update_def)
  then show ?thesis
    by (auto simp: update_needed_def split: sum.splits prod.splits option.splits
        dest: finish_update_success)
next
  case False
  then have "update_not_needed d svc (StatusLoadBalancer svc) c = (None, c')"
    using assms by (cases cached) (simp_all add: update_def)
  then show ?thesis
    by (auto simp: update_not_needed_def split: prod.splits option.splits
        dest: finish_update_success)
qed

lemma attempts_appends_all:
  assumes "\<And>s. \<exists>xs. calls (snd (condition s)) = calls s @ xs \<and> list_all P xs"
  shows "\<exists>xs. calls (snd (attempts n condition s)) = calls s @ xs \<and> list_all P xs"
proof (induction n arbitrary: s)
  case 0
  show ?case by simp
next
  case (Suc n)
  obtain ok err s' where c: "condition s = ((ok, err), s')"
    by (cases "condition s") auto
  from assms [of s] c obtain xs where xs: "calls s' = calls s @ xs" "list_all P xs"
    by auto
  from Suc.IH [of s'] obtain ys
    where "calls (snd (attempts n condition s')) = calls s' @ ys" "list_all P ys"
    by auto
  with c xs show ?case by auto
qed

lemma delete_calls:
  "\<exists>xs. calls (snd (delete d svc c)) = calls c @ xs \<and> list_all (\<lambda>x. \<not> is_ensure x) xs"
  by (auto simp: delete_def logged_def Eventf_def Context_Remove_def
      split: prod.splits option.splits)

text \<open>
  On a UID change \<open>update\<close> is the retried delete and nothing else: no call of the
  backend's ensure operation is logged.
\<close>

lemma update_uid_change_never_ensures:
  assumes "UID cs \<noteq> UID svc"
  shows "\<not> list_ex is_ensure (calls_since c (snd (update d (Some cs) svc c)))"
proof -
  have u: "update d (Some cs) svc c = retry None (delete d) svc c"
    using assms by (simp add: update_def)
  have "\<exists>xs. calls (snd (retry None (delete d) svc c)) = calls c @ xs
        \<and> list_all (\<lambda>x. \<not> is_ensure x) xs"
    unfolding retry_def ExponentialBackoff_def
    by (rule attempts_appends_all) (simp add: retry_condition_snd delete_calls)
  then show ?thesis
    by (auto simp: u calls_since_def list_all_iff list_ex_iff)
qed

text \<open>
  A conflict is told from other errors by its reason, but \<open>retry\<close> looks at the text
  only. The API server's optimistic-lock message ends in "try again": such a conflict is
  retried until the three steps are used up, and \<open>updateStatus\<close> returns the timeout of
  \<open>wait.ExponentialBackoff\<close>.
\<close>

lemma updateStatus_retries_optimistic_lock_conflict:
  "updateStatus fake_deps recreated_service [] (Some sample_ingress) (start optimistic_lock_world)
     = (Some ErrWaitTimeout,
        \<lparr>world = optimistic_lock_world, local_ctx = Map.empty,
         calls = [ClientGetService ''default'' ''web'',
                  ClientUpdateStatus (recreated_service\<lparr>StatusLoadBalancer := sample_ingress\<rparr>),
                  ClientGetService ''default'' ''web'',
                  ClientUpdateStatus (recreated_service\<lparr>StatusLoadBalancer := sample_ingress\<rparr>),
                  ClientGetService ''default'' ''web'',
                  ClientUpdateStatus (recreated_service\<lparr>StatusLoadBalancer := sample_ingress\<rparr>)]\<rparr>)"
  by (simp add: run_defs)

text \<open>
  C2: the claim requires that an error other than "try again" is propagated to the caller
  of \<open>retry\<close>, and that a conflict during the status write makes \<open>updateStatus\<close> return an
  error. The code drops every error whose text lacks "try again". A function that fails
  with \<open>boom\<close> is called once (the counter goes from 0 to 1) and \<open>retry\<close> returns \<open>nil\<close>; a
  status write answered with a conflict whose text lacks those words (a failed UID
  precondition) is attempted once and \<open>updateStatus\<close> returns \<open>nil\<close>.
\<close>

theorem retry_returns_nil_on_fatal_error:
  "retry None (\<lambda>svc n. (Some (Errorf ''boom''), Suc n)) recreated_service (0::nat) = (None, 1)
   \<and> updateStatus fake_deps recreated_service [] (Some sample_ingress) (start conflict_world)
     = (None,
        \<lparr>world = conflict_world, local_ctx = Map.empty,
         calls = [ClientGetService ''default'' ''web'',
                  ClientUpdateStatus (recreated_service\<lparr>StatusLoadBalancer := sample_ingress\<rparr>)]\<rparr>)"
  by (simp add: run_defs)

text \<open>
  C3: the claim requires that a successful \<open>update\<close> of a service that no longer needs a
  load balancer leaves no cache entry under its key. The code removes the entry and then
  stores the object again: for the service that was switched to \<open>ClusterIP\<close>, \<open>update\<close>
  succeeds and the cache holds the object.
\<close>

theorem update_not_needed_leaves_cache_entry:
  "fst (update fake_deps (Some synced_service) demoted_service demoted_start) = None
   \<and> local_ctx (snd (update fake_deps (Some synced_service) demoted_service demoted_start))
        (key demoted_service) = Some demoted_service"
  by (simp add: run_defs)

text \<open>
  C4, as the claim states it, fails: after a first successful run on a service whose
  status already equals what the cloud reports, a second run on the same object calls the
  cloud backend's ensure operation and patches the hash label again.
\<close>

theorem second_run_calls_cloud_again:
  "update fake_deps None synced_service (start synced_world) = (None, after_first_run)
   \<and> update fake_deps (Context_Get after_first_run (key synced_service)) synced_service
        after_first_run
     = (None,
        after_first_run\<lparr>calls := calls after_first_run @
          [CloudEnsureLoadBalancer synced_service [ready_worker],
           RecorderEvent synced_service ''Normal'' ''EnsuredLoadBalancer'',
           ClientPatchService synced_service hashed_service]\<rparr>)"
  by (simp add: run_defs)

text \<open>
  C4 (amended): for a service that needs a load balancer (no UID mismatch with the cache,
  node list readable), every run of \<open>update\<close>, a second run on the same unchanged object
  included, calls the cloud backend's ensure operation; the Kubernetes status write is
  skipped whenever the ensure operation succeeds with a status equal to the one recorded
  in the object.
\<close>

theorem update_always_ensures_skips_equal_status_write:
  assumes need: "NeedLoadBalancer d svc"
    and uid: "case cached of None \<Rightarrow> True | Some cs \<Rightarrow> UID cs = UID svc"
    and nodes: "AvailableNodes d svc (world c) = Inr nodes"
  shows "CloudEnsureLoadBalancer svc nodes \<in> set (calls_since c (snd (update d cached svc c)))
       \<and> (fst (cloud_EnsureLoadBalancer d svc nodes (world c)) = (Some st, None)
            \<and> LoadBalancerStatusEqual (StatusLoadBalancer svc) st
          \<longrightarrow> \<not> list_ex is_status_write (calls_since c (snd (update d cached svc c))))"
proof -
  let ?pre = "StatusLoadBalancer svc"
  have u: "update d cached svc c = update_needed d svc ?pre c"
    using need uid by (cases cached) (simp_all add: update_def)
  obtain newm err w where ens: "cloud_EnsureLoadBalancer d svc nodes (world c) = ((newm, err), w)"
    by (cases "cloud_EnsureLoadBalancer d svc nodes (world c)") auto
  define c1 where "c1 = logged (CloudEnsureLoadBalancer svc nodes) w
     (if length nodes = 0 then Eventf svc EventTypeWarning ''UnAvailableLoadBalancer'' c else c)"
  obtain ys where c1: "calls c1 = calls c @ ys @ [CloudEnsureLoadBalancer svc nodes]"
    and ys: "\<not> list_ex is_status_write ys"
    by (cases "length nodes = 0") (simp_all add: c1_def logged_def Eventf_def)
  show ?thesis
  proof (cases err)
    case (Some e)
    have "update_needed d svc ?pre c
            = (Some (Errorf (''ensure loadbalancer error: '' @ Error e)),
               Eventf svc EventTypeWarning ''SyncLoadBalancerFailed'' c1)"
      using nodes ens Some by (simp add: update_needed_def c1_def)
    then show ?thesis
      using c1 ys ens Some by (simp add: u calls_since_def Eventf_def)
  next
    case None
    define c2 where "c2 = Eventf svc EventTypeNormal ''EnsuredLoadBalancer'' c1"
    obtain r3 c3 where hash: "addServiceHash d svc c2 = (r3, c3)"
      by (cases "addServiceHash d svc c2") auto
    from addServiceHash_quiet [of d svc c2] hash obtain zs
      where c3: "calls c3 = calls c2 @ zs" and zs: "\<not> list_ex is_status_write zs"
      by auto
    have c3': "calls c3 = calls c @ ys @ [CloudEnsureLoadBalancer svc nodes]
                 @ [RecorderEvent svc EventTypeNormal ''EnsuredLoadBalancer''] @ zs"
      using c1 c3 by (simp add: c2_def Eventf_def)
    have step: "update_needed d svc ?pre c
            = (case r3 of Some e \<Rightarrow> (Some e, c3) | None \<Rightarrow> finish_update d svc ?pre newm c3)"
      using nodes ens None hash by (simp add: update_needed_def c1_def c2_def)
    show ?thesis
    proof (cases r3)
      case (Some e)
      then show ?thesis
        using step c3' ys zs by (auto simp: u calls_since_def list_ex_iff)
    next
      case None
      obtain ws where ws: "calls (snd (finish_update d svc ?pre newm c3)) = calls c3 @ ws"
        using finish_update_appends by blast
      have first: "CloudEnsureLoadBalancer svc nodes
                     \<in> set (calls_since c (snd (update d cached svc c)))"
        using step None ws c3' by (simp add: u calls_since_def)
      have second: "\<not> list_ex is_status_write (calls_since c (snd (update d cached svc c)))"
        if "newm = Some st" and "LoadBalancerStatusEqual ?pre st"
        using step None c3' ys zs that finish_update_unchanged [OF that(2), of d svc c3]
        by (auto simp: u calls_since_def list_ex_iff)
      show ?thesis
        using first second ens by simp
    qed
  qed
qed

theorem update_always_ensures_skips_equal_status_write_witness:
  "NeedLoadBalancer fake_deps synced_service
   \<and> UID synced_service = UID synced_service
   \<and> AvailableNodes fake_deps synced_service (world after_first_run) = Inr [ready_worker]
   \<and> fst (cloud_EnsureLoadBalancer fake_deps synced_service [ready_worker]
            (world after_first_run)) = (Some sample_ingress, None)
   \<and> LoadBalancerStatusEqual (StatusLoadBalancer synced_service) sample_ingress
   \<and> CloudEnsureLoadBalancer synced_service [ready_worker]
        \<in> set (calls_since after_first_run
                 (snd (update fake_deps (Some synced_service) synced_service after_first_run)))
   \<and> \<not> list_ex is_status_write
          (calls_since after_first_run
            (snd (update fake_deps (Some synced_service) synced_service after_first_run)))"
proof -
  have need: "NeedLoadBalancer fake_deps synced_service"
    by (simp add: fake_deps_def synced_service_def sample_service_def)
  have uid: "case Some synced_service of None \<Rightarrow> True | Some cs \<Rightarrow> UID cs = UID synced_service"
    by simp
  have nodes: "AvailableNodes fake_deps synced_service (world after_first_run) = Inr [ready_worker]"
    by (simp add: run_defs)
  have ens: "fst (cloud_EnsureLoadBalancer fake_deps synced_service [ready_worker]
                (world after_first_run)) = (Some sample_ingress, None)"
    by (simp add: fake_deps_def)
  have same: "LoadBalancerStatusEqual (StatusLoadBalancer synced_service) sample_ingress"
    by (simp add: LoadBalancerStatusEqual_def synced_service_def sample_service_def
        sample_ingress_def)
  show ?thesis
    using need nodes ens same
      update_always_ensures_skips_equal_status_write [OF need uid nodes, of sample_ingress]
    by simp
qed

text \<open>
  C7: when the key splits into namespace and name, the lister reports "not found" for
  them and the cache has no entry for the key, \<open>ServiceSyncTask\<close> returns \<open>nil\<close> and the
  controller state is the one it started from: no call was logged, the world and the
  cache are untouched.
\<close>

theorem ServiceSyncTask_deleted_uncached_noop:
  assumes "SplitMetaNamespaceKey k = Inr (ns, name)"
    and "IsNotFound (snd (lister_Services_Get d ns name (world c)))"
    and "Context_Get c k = None"
  shows "ServiceSyncTask d k c = (None, c)"
proof (cases "lister_Services_Get d ns name (world c)")
  case (Pair service err)
  with assms show ?thesis by (simp add: ServiceSyncTask_def)
qed

theorem ServiceSyncTask_deleted_uncached_noop_witness:
  "SplitMetaNamespaceKey ''default/web'' = Inr (''default'', ''web'')
   \<and> IsNotFound (snd (lister_Services_Get fake_deps ''default'' ''web'' (world (start empty_world))))
   \<and> Context_Get (start empty_world) ''default/web'' = None
   \<and> ServiceSyncTask fake_deps ''default/web'' (start empty_world) = (None, start empty_world)
   \<and> calls (start empty_world) = []"
proof -
  have k: "SplitMetaNamespaceKey ''default/web'' = Inr (''default'', ''web'')"
    by (simp add: SplitMetaNamespaceKey_def)
  have nf: "IsNotFound (snd (lister_Services_Get fake_deps ''default'' ''web''
                               (world (start empty_world))))"
    by (simp add: run_defs)
  have nc: "Context_Get (start empty_world) ''default/web'' = None"
    by (simp add: Context_Get_def start_def)
  show ?thesis
    using k nf nc ServiceSyncTask_deleted_uncached_noop [OF k nf nc]
    by (simp add: start_def)
qed

text \<open>
  C8: the claim requires that on a UID change \<open>update\<close> deletes the load balancer and
  then goes on with a fresh ensure. The code returns straight after the delete: for the
  recreated service it calls the backend's delete for the new object, drops the cache
  entry, reports success, and never calls the ensure operation.
\<close>

theorem update_uid_change_stops_after_delete:
  "update fake_deps (Some old_service) recreated_service recreated_start
     = (None,
        \<lparr>world = world recreated_start, local_ctx = Map.empty,
         calls = [CloudEnsureLoadBalancerDeleted recreated_service,
                  RecorderEvent recreated_service ''Normal'' ''DeletedLoadBalancer'']\<rparr>)"
  by (simp add: run_defs)

end
